theory Spec2Isabelle
  imports Main
begin

section \<open>Data model (library/models.py)\<close>

text \<open>
  The three Django models, as records. Every model has the primary key \<open>pk\<close>, which is
  \<open>None\<close> on an instance that was never saved. A foreign key holds the primary key of
  the row it refers to. A point in time is a natural number; \<open>datetime.now()\<close> is the
  parameter \<open>now\<close> of every operation that reads the clock.
\<close>

type_synonym datetime = nat

record Model =
  pk :: "nat option"

record Timestamped = Model +
  created_at :: "datetime option"
  updated_at :: "datetime option"

record Book = Timestamped +
  title :: string
  author :: string
  year :: nat

record Reader = Timestamped +
  name :: string
  email :: string

record Reservation = Model +
  book :: "nat option"
  reader :: "nat option"
  reservation_date :: "datetime option"
  is_active :: bool
  cancelled_at :: "datetime option"
  "notes" :: string

text \<open>The database: one table per model, a table being the list of its rows.\<close>

record database =
  books :: "Book list"
  readers :: "Reader list"
  reservations :: "Reservation list"

subsection \<open>Errors\<close>

text \<open>
  The messages of the validation errors the code raises. The texts are
  \<^item> \<open>BookAlreadyReserved t n\<close>: Le livre "t" est deja reserve par n. (Reservation.clean)
  \<^item> \<open>ReaderAlreadyReserved n\<close>: Le lecteur "n" a deja une reservation en cours.
    (Reservation.clean)
  \<^item> \<open>ReservedBySomeoneElse\<close>: Le livre est deja reserve par quelqu'un d'autre.
    (Reservation.reactivate)
  \<^item> \<open>NoLongerAvailable\<close>: Ce livre n'est plus disponible. (QuickReservationForm.clean)
  \<^item> \<open>TooManyActive n c\<close>: n a deja c reservations actives. (QuickReservationForm.clean)
  \<^item> \<open>FieldNull\<close>, \<open>InvalidForeignKey\<close>: the field validation of Django's full_clean.
  \<^item> \<open>ConstraintViolated c\<close>: the constraint \<open>c\<close> is violated (the validation of the
    constraints of Django's full_clean).
\<close>

datatype message =
    FieldNull
  | InvalidForeignKey nat
  | BookAlreadyReserved string string
  | ReaderAlreadyReserved string
  | ReservedBySomeoneElse
  | NoLongerAvailable
  | TooManyActive string nat
  | ConstraintViolated string

text \<open>
  Exceptions as values. A \<open>ValidationError\<close> carries its error dictionary, a list of
  (field, message); the key of an error that belongs to no field is \<open>__all__\<close>.
\<close>

datatype error =
    Http404
  | DoesNotExist
  | MultipleObjectsReturned
  | ValidationError "(string \<times> message) list"
  | IntegrityError string
  | DataError
  | JSONDecodeError

subsection \<open>Queries\<close>

text \<open>\<open>Model.objects.get(...)\<close>: the one row that matches, an exception otherwise.\<close>

definition objects_get :: "('a \<Rightarrow> bool) \<Rightarrow> 'a list \<Rightarrow> error + 'a" where
  "objects_get P rows =
     (case filter P rows of
        [] \<Rightarrow> Inl DoesNotExist
      | [x] \<Rightarrow> Inr x
      | _ \<Rightarrow> Inl MultipleObjectsReturned)"

text \<open>\<open>get_object_or_404(Model, id=k)\<close>: \<open>DoesNotExist\<close> becomes \<open>Http404\<close>.\<close>

definition get_object_or_404 :: "'a Model_scheme list \<Rightarrow> nat \<Rightarrow> error + 'a Model_scheme" where
  "get_object_or_404 rows k =
     (case objects_get (\<lambda>x. pk x = Some k) rows of
        Inl DoesNotExist \<Rightarrow> Inl Http404
      | r \<Rightarrow> r)"

text \<open>
  Reading a related object (\<open>self.book\<close>, \<open>existing.reader\<close>): the row the foreign key
  points to; Django raises RelatedObjectDoesNotExist when the key is null or dangling.
\<close>

definition related :: "'a Model_scheme list \<Rightarrow> nat option \<Rightarrow> error + 'a Model_scheme" where
  "related rows fk =
     (case fk of
        None \<Rightarrow> Inl DoesNotExist
      | Some k \<Rightarrow> objects_get (\<lambda>x. pk x = Some k) rows)"

text \<open>Book.is_available (models.py 49-51).\<close>

definition is_available :: "database \<Rightarrow> Book \<Rightarrow> bool" where
  "is_available db self =
     (\<not> list_ex (\<lambda>x. book x = pk self \<and> is_active x) (reservations db))"

text \<open>Reader.get_active_reservations (models.py 100-102).\<close>

definition get_active_reservations :: "database \<Rightarrow> Reader \<Rightarrow> Reservation list" where
  "get_active_reservations db self =
     filter (\<lambda>x. reader x = pk self \<and> is_active x) (reservations db)"

section \<open>Validation and saving of a reservation\<close>

text \<open>
  Reservation.clean (models.py 166-189). Reading \<open>self.book\<close> with a null key raises
  RelatedObjectDoesNotExist, an AttributeError, so \<open>hasattr(self, 'book')\<close> is false and
  \<open>clean\<close> returns. With a key that names no row the read raises \<open>Book.DoesNotExist\<close>,
  which \<open>hasattr\<close> does not catch: the exception leaves \<open>clean\<close>. The same holds for
  the reader.
\<close>

definition Reservation_clean :: "database \<Rightarrow> Reservation \<Rightarrow> error + unit" where
  "Reservation_clean db self =
     (if pk self = None then
        (case book self of
           None \<Rightarrow> Inr ()
         | Some _ \<Rightarrow>
        (case related (books db) (book self) of
           Inl e \<Rightarrow> Inl e
         | Inr b \<Rightarrow>
        (case reader self of
           None \<Rightarrow> Inr ()
         | Some _ \<Rightarrow>
        (case related (readers db) (reader self) of
           Inl e \<Rightarrow> Inl e
         | Inr rd \<Rightarrow>
             if list_ex (\<lambda>x. book x = book self \<and> is_active x) (reservations db) then
               (case objects_get (\<lambda>x. book x = book self \<and> is_active x) (reservations db) of
                  Inl e \<Rightarrow> Inl e
                | Inr existing \<Rightarrow>
                    (case related (readers db) (reader existing) of
                       Inl e \<Rightarrow> Inl e
                     | Inr er \<Rightarrow>
                         Inl (ValidationError
                                [(''book'', BookAlreadyReserved (title b) (name er))])))
             else if list_ex (\<lambda>x. reader x = reader self \<and> is_active x) (reservations db) then
               Inl (ValidationError [(''reader'', ReaderAlreadyReserved (name rd))])
             else Inr ()))))
      else Inr ())"

text \<open>
  Django's field validation of a foreign key (part of \<open>full_clean\<close>): the key is not null
  and the row it names exists.
\<close>

definition fk_errors :: "string \<Rightarrow> 'a Model_scheme list \<Rightarrow> nat option \<Rightarrow> (string \<times> message) list" where
  "fk_errors field rows fk =
     (case fk of
        None \<Rightarrow> [(field, FieldNull)]
      | Some k \<Rightarrow>
          if list_ex (\<lambda>x. pk x = Some k) rows then [] else [(field, InvalidForeignKey k)])"

definition clean_fields :: "database \<Rightarrow> Reservation \<Rightarrow> (string \<times> message) list" where
  "clean_fields db self =
     fk_errors ''book'' (books db) (book self) @ fk_errors ''reader'' (readers db) (reader self)"

text \<open>
  Reservation.Meta.constraints (models.py 149-156): the one constraint of the table,
  \<open>UniqueConstraint(fields=['book'], condition=Q(is_active=True))\<close>. A row \<open>r\<close> may be
  written when it is inactive or no other row is active on the same book.
\<close>

definition unique_active_reservation_per_book :: "Reservation list \<Rightarrow> Reservation \<Rightarrow> bool" where
  "unique_active_reservation_per_book rows r =
     (\<not> (is_active r \<and>
         list_ex (\<lambda>x. pk x \<noteq> pk r \<and> is_active x \<and> book x = book r) rows))"

text \<open>
  The validation of the constraints in \<open>full_clean\<close>: a constraint is skipped when one
  of its fields is among those that already failed (\<open>exclude\<close>) or is null.
\<close>

definition validate_constraints ::
  "database \<Rightarrow> Reservation \<Rightarrow> string list \<Rightarrow> (string \<times> message) list" where
  "validate_constraints db self exclude =
     (if ''book'' \<in> set exclude \<or> book self = None then []
      else if \<not> unique_active_reservation_per_book (reservations db) self then
        [(''__all__'', ConstraintViolated ''unique_active_reservation_per_book'')]
      else [])"

text \<open>
  \<open>full_clean\<close>: the errors of the fields, of \<open>clean\<close> and of the constraints are
  collected, in this order, into one ValidationError; \<open>clean\<close> runs even when a field is
  invalid. An exception of \<open>clean\<close> that is no ValidationError is raised as it is. The
  key is the only unique field of the model, and the key of an instance is either none or
  the key under which the instance was loaded.
\<close>

definition collect_errors :: "database \<Rightarrow> Reservation \<Rightarrow> (string \<times> message) list \<Rightarrow> error + unit" where
  "collect_errors db self errors =
     (let errors' = errors @ validate_constraints db self (map fst errors)
      in if errors' = [] then Inr () else Inl (ValidationError errors'))"

definition full_clean :: "database \<Rightarrow> Reservation \<Rightarrow> error + unit" where
  "full_clean db self =
     (let errors = clean_fields db self in
      case Reservation_clean db self of
        Inl (ValidationError e) \<Rightarrow> collect_errors db self (errors @ e)
      | Inl other \<Rightarrow> Inl other
      | Inr _ \<Rightarrow> collect_errors db self errors)"

subsection \<open>The storage layer\<close>

text \<open>The key the database gives to a new row: one more than every key of the table.\<close>

definition next_pk :: "'a Model_scheme list \<Rightarrow> nat" where
  "next_pk rows = Suc (fold (\<lambda>x m. case pk x of None \<Rightarrow> m | Some k \<Rightarrow> max k m) rows 0)"

text \<open>
  \<open>models.Model.save\<close> on a reservation (\<open>super().save()\<close>, models.py 194): an instance
  without a key, or whose key is not in the table, is inserted (\<open>reservation_date\<close> is
  \<open>auto_now_add\<close>), any other one updates its row. The database refuses the write with
  an IntegrityError when a foreign key is null or dangling or when the constraint of the
  table fails, whatever was validated before.
\<close>

definition Model_save :: "database \<Rightarrow> datetime \<Rightarrow> Reservation \<Rightarrow> error + Reservation \<times> database" where
  "Model_save db now self =
     (let rows = reservations db;
          adding = (pk self = None \<or> \<not> list_ex (\<lambda>x. pk x = pk self) rows);
          keyed = (if pk self = None then self\<lparr>pk := Some (next_pk rows)\<rparr> else self);
          r = (if adding then keyed\<lparr>reservation_date := Some now\<rparr> else keyed)
      in if fk_errors ''book'' (books db) (book r) \<noteq> []
            \<or> fk_errors ''reader'' (readers db) (reader r) \<noteq> [] then
           Inl (IntegrityError ''foreign_key'')
         else if \<not> unique_active_reservation_per_book rows r then
           Inl (IntegrityError ''unique_active_reservation_per_book'')
         else
           Inr (r, db\<lparr>reservations :=
                        (if adding then rows @ [r]
                         else map (\<lambda>x. if pk x = pk r then r else x) rows)\<rparr>))"

text \<open>Reservation.save (models.py 191-194).\<close>

definition Reservation_save :: "database \<Rightarrow> datetime \<Rightarrow> Reservation \<Rightarrow> error + Reservation \<times> database" where
  "Reservation_save db now self =
     (case full_clean db self of
        Inl e \<Rightarrow> Inl e
      | Inr _ \<Rightarrow> Model_save db now self)"

text \<open>
  \<open>Reservation.objects.create(book=..., reader=..., notes=...)\<close>: a new instance with the
  defaults of the fields (\<open>is_active = True\<close>, \<open>cancelled_at = None\<close>), then \<open>save\<close>.
\<close>

definition Reservation_objects_create ::
  "database \<Rightarrow> datetime \<Rightarrow> nat option \<Rightarrow> nat option \<Rightarrow> string \<Rightarrow> error + Reservation \<times> database" where
  "Reservation_objects_create db now b r n =
     Reservation_save db now
       \<lparr>pk = None, book = b, reader = r, reservation_date = None,
        is_active = True, cancelled_at = None, notes = n\<rparr>"

section \<open>Cancelling and reactivating\<close>

text \<open>Reservation.cancel (models.py 196-203).\<close>

definition cancel :: "database \<Rightarrow> datetime \<Rightarrow> Reservation \<Rightarrow> error + bool \<times> database" where
  "cancel db now self =
     (if is_active self then
        (case Reservation_save db now (self\<lparr>is_active := False, cancelled_at := Some now\<rparr>) of
           Inl e \<Rightarrow> Inl e
         | Inr (_, db') \<Rightarrow> Inr (True, db'))
      else Inr (False, db))"

text \<open>
  Reservation.reactivate (models.py 205-214). \<open>self.book\<close> is read on every path (by the
  first condition when the reservation is inactive, by the second one otherwise), so it
  is read once here.
\<close>

definition reactivate :: "database \<Rightarrow> datetime \<Rightarrow> Reservation \<Rightarrow> error + bool \<times> database" where
  "reactivate db now self =
     (case related (books db) (book self) of
        Inl e \<Rightarrow> Inl e
      | Inr b \<Rightarrow>
          if \<not> is_active self \<and> is_available db b then
            (case Reservation_save db now (self\<lparr>is_active := True, cancelled_at := None\<rparr>) of
               Inl e \<Rightarrow> Inl e
             | Inr (_, db') \<Rightarrow> Inr (True, db'))
          else if \<not> is_available db b then
            Inl (ValidationError [(''__all__'', ReservedBySomeoneElse)])
          else Inr (False, db))"

section \<open>The operations of the reservation engine\<close>

text \<open>
  An operation looks its arguments up by key and calls the model, as the views do:
  \<^item> CreateReservation: \<open>get_object_or_404\<close> on the book and on the reader, then
    \<open>Reservation.objects.create\<close> (views.py 368-369 and 380, here with the notes);
  \<^item> CancelReservation: \<open>get_object_or_404\<close> on the reservation, then \<open>cancel\<close>
    (views.py 236 and 239);
  \<^item> ReactivateReservation: the same lookup, then \<open>reactivate\<close>.

  It returns its result and the database it leaves; an exception leaves the database as
  it was, since it is raised before any write.
\<close>

definition CreateReservation ::
  "database \<Rightarrow> datetime \<Rightarrow> nat \<Rightarrow> nat \<Rightarrow> string \<Rightarrow> (error + Reservation) \<times> database" where
  "CreateReservation db now book_id reader_id n =
     (case get_object_or_404 (books db) book_id of
        Inl e \<Rightarrow> (Inl e, db)
      | Inr b \<Rightarrow>
     (case get_object_or_404 (readers db) reader_id of
        Inl e \<Rightarrow> (Inl e, db)
      | Inr rd \<Rightarrow>
     (case Reservation_objects_create db now (pk b) (pk rd) n of
        Inl e \<Rightarrow> (Inl e, db)
      | Inr (res, db') \<Rightarrow> (Inr res, db'))))"

definition CancelReservation :: "database \<Rightarrow> datetime \<Rightarrow> nat \<Rightarrow> (error + bool) \<times> database" where
  "CancelReservation db now reservation_id =
     (case get_object_or_404 (reservations db) reservation_id of
        Inl e \<Rightarrow> (Inl e, db)
      | Inr self \<Rightarrow>
          (case cancel db now self of
             Inl e \<Rightarrow> (Inl e, db)
           | Inr (ok, db') \<Rightarrow> (Inr ok, db')))"

definition ReactivateReservation :: "database \<Rightarrow> datetime \<Rightarrow> nat \<Rightarrow> (error + bool) \<times> database" where
  "ReactivateReservation db now reservation_id =
     (case get_object_or_404 (reservations db) reservation_id of
        Inl e \<Rightarrow> (Inl e, db)
      | Inr self \<Rightarrow>
          (case reactivate db now self of
             Inl e \<Rightarrow> (Inl e, db)
           | Inr (ok, db') \<Rightarrow> (Inr ok, db')))"

section \<open>The quick-reservation path\<close>

text \<open>
  The request of views.quick_reserve: its method and its body. \<open>Malformed\<close> is a body
  that \<open>json.loads\<close> rejects; \<open>Body r\<close> is a JSON object whose entry \<open>reader_id\<close> is
  \<open>r\<close> (\<open>None\<close> when the entry is absent).
\<close>

datatype json_body = Malformed | Body "nat option"

text \<open>
  The messages of the JSON answers of views.quick_reserve:
  \<^item> \<open>BookReserved\<close>: Ce livre est deja reserve.
  \<^item> \<open>ReaderHasReservation\<close>: Ce lecteur a deja une reservation en cours.
  \<^item> \<open>ReservedFor n\<close>: Livre reserve avec succes pour n
  \<^item> \<open>ExceptionText e\<close>: \<open>str(e)\<close> of the exception caught by the view
  \<^item> \<open>MethodNotAllowed\<close>: Methode non autorisee
\<close>

datatype response_message =
    BookReserved
  | ReaderHasReservation
  | ReservedFor string
  | ExceptionText error
  | MethodNotAllowed

record JsonResponse =
  status :: string
  message :: response_message
  reservation_id :: "nat option"

text \<open>
  views.quick_reserve (views.py 358-390). Every exception raised inside the \<open>try\<close>,
  \<open>Http404\<close> included, is caught and answered as an error.
\<close>

definition quick_reserve ::
  "database \<Rightarrow> datetime \<Rightarrow> string \<Rightarrow> json_body \<Rightarrow> nat \<Rightarrow> JsonResponse \<times> database" where
  "quick_reserve db now method body book_id =
     (if method = ''POST'' then
        (case body of
           Malformed \<Rightarrow>
             (\<lparr>status = ''error'', message = ExceptionText JSONDecodeError,
               reservation_id = None\<rparr>, db)
         | Body reader_id \<Rightarrow>
        (case get_object_or_404 (books db) book_id of
           Inl e \<Rightarrow> (\<lparr>status = ''error'', message = ExceptionText e, reservation_id = None\<rparr>, db)
         | Inr b \<Rightarrow>
        (case (case reader_id of
                 None \<Rightarrow> Inl Http404
               | Some r \<Rightarrow> get_object_or_404 (readers db) r) of
           Inl e \<Rightarrow> (\<lparr>status = ''error'', message = ExceptionText e, reservation_id = None\<rparr>, db)
         | Inr rd \<Rightarrow>
             if \<not> is_available db b then
               (\<lparr>status = ''error'', message = BookReserved, reservation_id = None\<rparr>, db)
             else if get_active_reservations db rd \<noteq> [] then
               (\<lparr>status = ''error'', message = ReaderHasReservation, reservation_id = None\<rparr>, db)
             else
               (case Reservation_objects_create db now (pk b) (pk rd) [] of
                  Inl e \<Rightarrow>
                    (\<lparr>status = ''error'', message = ExceptionText e, reservation_id = None\<rparr>, db)
                | Inr (res, db') \<Rightarrow>
                    (\<lparr>status = ''success'', message = ReservedFor (name rd),
                      reservation_id = pk res\<rparr>, db')))))
      else (\<lparr>status = ''error'', message = MethodNotAllowed, reservation_id = None\<rparr>, db))"

text \<open>
  QuickReservationForm.clean (forms.py 375-392): \<open>self.book\<close> and the reader of the
  cleaned data, either of which may be missing.
\<close>

definition QuickReservationForm_clean :: "database \<Rightarrow> Book option \<Rightarrow> Reader option \<Rightarrow> error + unit" where
  "QuickReservationForm_clean db self_book rd =
     (case self_book of
        None \<Rightarrow> Inr ()
      | Some b \<Rightarrow>
     (case rd of
        None \<Rightarrow> Inr ()
      | Some r \<Rightarrow>
          if \<not> is_available db b then
            Inl (ValidationError [(''__all__'', NoLongerAvailable)])
          else
            (let active_count = length (get_active_reservations db r) in
             if active_count \<ge> 5 then
               Inl (ValidationError [(''__all__'', TooManyActive (name r) active_count)])
             else Inr ())))"

section \<open>Saving a reader\<close>

text \<open>
  \<open>str.strip()\<close> and \<open>str.lower()\<close>. A character is a code point below 256, so a string
  is a text of Latin-1. \<open>strip\<close> removes the leading and the trailing white space: the
  code points 9 to 13, 28 to 32, 133 (next line) and 160 (no-break space). \<open>lower\<close> maps
  the letters A to Z (65 to 90) and the capital letters 192 to 222 other than the
  multiplication sign 215 to the code point 32 above, and keeps every other character.
\<close>

definition isspace :: "char \<Rightarrow> bool" where
  "isspace c =
     (let n = (of_char c :: nat)
      in (9 \<le> n \<and> n \<le> 13) \<or> (28 \<le> n \<and> n \<le> 32) \<or> n = 133 \<or> n = 160)"

definition strip :: "string \<Rightarrow> string" where
  "strip s = rev (dropWhile isspace (rev (dropWhile isspace s)))"

definition lower_char :: "char \<Rightarrow> char" where
  "lower_char c =
     (let n = (of_char c :: nat)
      in if (65 \<le> n \<and> n \<le> 90) \<or> (192 \<le> n \<and> n \<le> 222 \<and> n \<noteq> 215)
         then char_of (n + 32) else c)"

definition lower :: "string \<Rightarrow> string" where
  "lower s = map lower_char s"

text \<open>\<open>email = models.EmailField(unique=True)\<close> (models.py 64-68), as the database checks it.\<close>

definition unique_email :: "Reader list \<Rightarrow> Reader \<Rightarrow> bool" where
  "unique_email rows r = (\<not> list_ex (\<lambda>x. pk x \<noteq> pk r \<and> email x = email r) rows)"

text \<open>
  \<open>models.Model.save\<close> on a reader (\<open>super().save()\<close>, models.py 98): insert or update as
  for a reservation; \<open>created_at\<close> is \<open>auto_now_add\<close>, set by an insert only, and
  \<open>updated_at\<close> is \<open>auto_now\<close>. The database refuses a row without \<open>created_at\<close> (the
  column is not null) and a row whose email another row has. Whether it also refuses a
  name of more than 100 characters or an email of more than 254 (the \<open>max_length\<close> of the
  columns) depends on the database of the project, which the sources do not name:
  PostgreSQL does, SQLite does not. It is the parameter \<open>checks_length\<close>.
\<close>

definition Model_save_Reader ::
  "bool \<Rightarrow> database \<Rightarrow> datetime \<Rightarrow> Reader \<Rightarrow> error + Reader \<times> database" where
  "Model_save_Reader checks_length db now self =
     (let rows = readers db;
          adding = (pk self = None \<or> \<not> list_ex (\<lambda>x. pk x = pk self) rows);
          keyed = (if pk self = None then self\<lparr>pk := Some (next_pk rows)\<rparr> else self);
          r = (if adding then keyed\<lparr>created_at := Some now, updated_at := Some now\<rparr>
               else keyed\<lparr>updated_at := Some now\<rparr>)
      in if created_at r = None then Inl (IntegrityError ''created_at'')
         else if checks_length \<and> (length (name r) > 100 \<or> length (email r) > 254) then
           Inl DataError
         else if \<not> unique_email rows r then Inl (IntegrityError ''email'')
         else
           Inr (r, db\<lparr>readers :=
                        (if adding then rows @ [r]
                         else map (\<lambda>x. if pk x = pk r then r else x) rows)\<rparr>))"

text \<open>Reader.save (models.py 94-98). A string is true when it is not empty.\<close>

definition Reader_save ::
  "bool \<Rightarrow> database \<Rightarrow> datetime \<Rightarrow> Reader \<Rightarrow> error + Reader \<times> database" where
  "Reader_save checks_length db now self =
     Model_save_Reader checks_length db now
       (if email self \<noteq> [] then self\<lparr>email := lower (strip (email self))\<rparr> else self)"

text \<open>\<open>Reader.objects.create(name=..., email=...)\<close>: a new instance, then \<open>save\<close>.\<close>

definition Reader_objects_create ::
  "bool \<Rightarrow> database \<Rightarrow> datetime \<Rightarrow> string \<Rightarrow> string \<Rightarrow> error + Reader \<times> database" where
  "Reader_objects_create checks_length db now n e =
     Reader_save checks_length db now
       \<lparr>pk = None, created_at = None, updated_at = None, name = n, email = e\<rparr>"

section \<open>Committed states\<close>

text \<open>
  What the schema guarantees of every committed state: primary keys are set and unique,
  the foreign keys of a reservation name rows that exist, and two active reservations
  of one book are the same row (\<open>unique_active_reservation_per_book\<close>).
\<close>

definition pk_ok :: "'a Model_scheme list \<Rightarrow> bool" where
  "pk_ok rows = (distinct (map pk rows) \<and> list_all (\<lambda>x. pk x \<noteq> None) rows)"

definition fk_ok :: "'a Model_scheme list \<Rightarrow> nat option \<Rightarrow> bool" where
  "fk_ok rows fk = (case fk of None \<Rightarrow> False | Some k \<Rightarrow> list_ex (\<lambda>x. pk x = Some k) rows)"

definition one_active_per_book :: "Reservation list \<Rightarrow> bool" where
  "one_active_per_book rows =
     list_all (\<lambda>x. list_all (\<lambda>y. is_active x \<and> is_active y \<and> book x = book y \<longrightarrow> pk x = pk y) rows) rows"

definition wf_db :: "database \<Rightarrow> bool" where
  "wf_db db =
     (pk_ok (books db) \<and> pk_ok (readers db) \<and> pk_ok (reservations db) \<and>
      list_all (\<lambda>x. fk_ok (books db) (book x) \<and> fk_ok (readers db) (reader x)) (reservations db) \<and>
      one_active_per_book (reservations db))"

text \<open>
  The states the engine reaches: it starts from any catalogue of books and readers
  without reservations, and every call of an operation, failed or not, leaves a state.
\<close>

inductive reachable :: "database \<Rightarrow> bool" where
  initial: "reservations db = [] \<Longrightarrow> reachable db"
| create: "reachable db \<Longrightarrow> reachable (snd (CreateReservation db now b r n))"
| cancel: "reachable db \<Longrightarrow> reachable (snd (CancelReservation db now k))"
| reactivate: "reachable db \<Longrightarrow> reachable (snd (ReactivateReservation db now k))"

text \<open>The number of active reservations of a book, and of a reader.\<close>

definition active_count_of_book :: "database \<Rightarrow> nat \<Rightarrow> nat" where
  "active_count_of_book db b =
     length (filter (\<lambda>x. book x = Some b \<and> is_active x) (reservations db))"

definition active_count_of_reader :: "database \<Rightarrow> nat \<Rightarrow> nat" where
  "active_count_of_reader db r =
     length (filter (\<lambda>x. reader x = Some r \<and> is_active x) (reservations db))"

section \<open>A small library\<close>

text \<open>Two books, two readers, and the states of a few scenarios.\<close>

definition Dune :: Book where
  "Dune = \<lparr>pk = Some 1, created_at = Some 0, updated_at = Some 0,
           title = ''Dune'', author = ''Herbert'', year = 1965\<rparr>"

definition Emma :: Book where
  "Emma = \<lparr>pk = Some 2, created_at = Some 0, updated_at = Some 0,
           title = ''Emma'', author = ''Austen'', year = 1815\<rparr>"

definition Ann :: Reader where
  "Ann = \<lparr>pk = Some 1, created_at = Some 0, updated_at = Some 0,
          name = ''Ann'', email = ''ann@example.com''\<rparr>"

definition Bob :: Reader where
  "Bob = \<lparr>pk = Some 2, created_at = Some 0, updated_at = Some 0,
          name = ''Bob'', email = ''bob@example.com''\<rparr>"

text \<open>Reservation 1: Dune for Ann, made at time 5.\<close>

definition Res1 :: Reservation where
  "Res1 = \<lparr>pk = Some 1, book = Some 1, reader = Some 1, reservation_date = Some 5,
           is_active = True, cancelled_at = None, notes = ''first''\<rparr>"

text \<open>Reservation 2: Dune for Bob, made at time 7.\<close>

definition Res2 :: Reservation where
  "Res2 = \<lparr>pk = Some 2, book = Some 1, reader = Some 2, reservation_date = Some 7,
           is_active = True, cancelled_at = None, notes = []\<rparr>"

text \<open>Reservation 3: Emma for Ann, made at time 7.\<close>

definition Res3 :: Reservation where
  "Res3 = \<lparr>pk = Some 2, book = Some 2, reader = Some 1, reservation_date = Some 7,
           is_active = True, cancelled_at = None, notes = []\<rparr>"

definition library :: "Reservation list \<Rightarrow> database" where
  "library rows = \<lparr>books = [Dune, Emma], readers = [Ann, Bob], reservations = rows\<rparr>"

definition cancelled :: "datetime \<Rightarrow> Reservation \<Rightarrow> Reservation" where
  "cancelled t r = r\<lparr>is_active := False, cancelled_at := Some t\<rparr>"

text \<open>Instances that were never saved, and a third reader.\<close>

definition Res3_new :: Reservation where
  "Res3_new = \<lparr>pk = None, book = Some 2, reader = Some 1, reservation_date = None,
               is_active = True, cancelled_at = None, notes = []\<rparr>"

definition Res2_new :: Reservation where
  "Res2_new = \<lparr>pk = None, book = Some 1, reader = Some 2, reservation_date = None,
               is_active = True, cancelled_at = None, notes = []\<rparr>"

definition Cy :: Reader where
  "Cy = \<lparr>pk = Some 3, created_at = Some 9, updated_at = Some 9,
         name = ''Cy'', email = ''mixedcase@email.com''\<rparr>"

definition Cy_new :: Reader where
  "Cy_new = \<lparr>pk = None, created_at = None, updated_at = None,
         name = ''Cy'', email = ''  MixedCase@Email.COM ''\<rparr>"

section \<open>Queries and keys\<close>

lemma objects_get_Inr: "objects_get P rows = Inr x \<longleftrightarrow> filter P rows = [x]"
  by (auto simp: objects_get_def split: list.splits)

lemma objects_get_DoesNotExist: "objects_get P rows = Inl DoesNotExist \<longleftrightarrow> filter P rows = []"
  by (auto simp: objects_get_def split: list.splits)

lemma get_object_or_404_Inr:
  "get_object_or_404 rows k = Inr x \<longleftrightarrow> filter (\<lambda>y. pk y = Some k) rows = [x]"
  by (auto simp: get_object_or_404_def objects_get_def split: list.splits sum.splits error.splits)

lemma get_object_or_404_Http404:
  "get_object_or_404 rows k = Inl Http404 \<longleftrightarrow> filter (\<lambda>y. pk y = Some k) rows = []"
  by (auto simp: get_object_or_404_def objects_get_def split: list.splits sum.splits error.splits)

lemma pk_notin_filter_empty:
  "pk a \<notin> set (map pk rows) \<Longrightarrow> filter (\<lambda>y. pk y = pk a) rows = []"
  by (induction rows) auto

lemma filter_pk_single:
  "distinct (map pk rows) \<Longrightarrow> x \<in> set rows \<Longrightarrow> filter (\<lambda>y. pk y = pk x) rows = [x]"
proof (induction rows)
  case Nil
  then show ?case by simp
next
  case (Cons a rows)
  show ?case
  proof (cases "x = a")
    case True
    have "filter (\<lambda>y. pk y = pk a) rows = []"
      using Cons.prems(1) by (simp add: pk_notin_filter_empty)
    with True show ?thesis by simp
  next
    case False
    with Cons.prems have "x \<in> set rows" by simp
    moreover from this Cons.prems(1) have "pk a \<noteq> pk x" by auto
    ultimately show ?thesis using Cons by simp
  qed
qed

lemma filter_single_mem: "filter P rows = [x] \<Longrightarrow> x \<in> set rows \<and> P x"
proof -
  assume "filter P rows = [x]"
  then have "x \<in> set (filter P rows)" by simp
  then show ?thesis by simp
qed

lemma length_filter_le_1:
  assumes "distinct (map pk rows)"
    and "\<And>x y. x \<in> set rows \<Longrightarrow> y \<in> set rows \<Longrightarrow> P x \<Longrightarrow> P y \<Longrightarrow> pk x = pk y"
  shows "length (filter P rows) \<le> 1"
  using assms
proof (induction rows)
  case Nil
  then show ?case by simp
next
  case (Cons a rows)
  have d: "pk a \<notin> set (map pk rows)" "distinct (map pk rows)"
    using Cons.prems(1) by simp_all
  show ?case
  proof (cases "P a")
    case True
    have "\<not> P y" if "y \<in> set rows" for y
    proof
      assume "P y"
      have "pk a = pk y"
        by (rule Cons.prems(2)) (use that True \<open>P y\<close> in simp_all)
      with d(1) that show False by simp
    qed
    then have "filter P rows = []" by (simp add: filter_empty_conv)
    with True show ?thesis by simp
  next
    case False
    have "length (filter P rows) \<le> 1"
      by (rule Cons.IH[OF d(2)]) (rule Cons.prems(2), simp_all)
    with False show ?thesis by simp
  qed
qed


lemma get_object_or_404_mem:
  "get_object_or_404 rows k = Inr x \<Longrightarrow> x \<in> set rows \<and> pk x = Some k"
  by (simp add: get_object_or_404_Inr) (drule filter_single_mem, simp)

lemma get_object_or_404_found:
  assumes "distinct (map pk rows)" "x \<in> set rows" "pk x = Some k"
  shows "get_object_or_404 rows k = Inr x"
  using filter_pk_single[OF assms(1,2)] assms(3) by (simp add: get_object_or_404_Inr)

lemma get_object_or_404_missing:
  "\<not> list_ex (\<lambda>x. pk x = Some k) rows \<Longrightarrow> get_object_or_404 rows k = Inl Http404"
  by (simp add: get_object_or_404_Http404 filter_empty_conv list_ex_iff)

lemma related_found:
  assumes "distinct (map pk rows)" "x \<in> set rows" "pk x = Some k"
  shows "related rows (Some k) = Inr x"
  using filter_pk_single[OF assms(1,2)] assms(3) by (simp add: related_def objects_get_Inr)

lemma fk_okE:
  assumes "fk_ok rows fk"
  obtains k x where "fk = Some k" "x \<in> set rows" "pk x = Some k"
  using assms by (auto simp: fk_ok_def list_ex_iff split: option.splits)

lemma fk_ok_errors: "fk_ok rows fk \<Longrightarrow> fk_errors field rows fk = []"
  by (auto simp: fk_ok_def fk_errors_def split: option.splits)

lemma fk_errors_ok: "fk_errors field rows fk = [] \<Longrightarrow> fk_ok rows fk"
  by (auto simp: fk_ok_def fk_errors_def split: option.splits if_splits)

subsection \<open>Fresh keys\<close>

lemma fold_max_ge:
  "m \<le> fold (\<lambda>x m. case pk x of None \<Rightarrow> m | Some k \<Rightarrow> max k m) rows (m::nat)"
proof (induction rows arbitrary: m)
  case Nil
  show ?case by simp
next
  case (Cons a rows)
  have "m \<le> (case pk a of None \<Rightarrow> m | Some k \<Rightarrow> max k m)"
    by (simp split: option.splits)
  also have "\<dots> \<le> fold (\<lambda>x m. case pk x of None \<Rightarrow> m | Some k \<Rightarrow> max k m) rows \<dots>"
    by (rule Cons.IH)
  finally show ?case by simp
qed

lemma fold_max_bound:
  "x \<in> set rows \<Longrightarrow> pk x = Some k \<Longrightarrow>
   k \<le> fold (\<lambda>x m. case pk x of None \<Rightarrow> m | Some k \<Rightarrow> max k m) rows (m::nat)"
proof (induction rows arbitrary: m)
  case Nil
  then show ?case by simp
next
  case (Cons a rows)
  show ?case
  proof (cases "x = a")
    case True
    have "k \<le> max k m" by simp
    also have "\<dots> \<le> fold (\<lambda>x m. case pk x of None \<Rightarrow> m | Some k \<Rightarrow> max k m) rows (max k m)"
      by (rule fold_max_ge)
    finally show ?thesis using True Cons.prems(2) by simp
  next
    case False
    with Cons.prems have "x \<in> set rows" by simp
    from Cons.IH[OF this Cons.prems(2)] show ?thesis by simp
  qed
qed

lemma next_pk_gt: "x \<in> set rows \<Longrightarrow> pk x = Some k \<Longrightarrow> k < next_pk rows"
  unfolding next_pk_def by (rule le_imp_less_Suc) (rule fold_max_bound)

lemma next_pk_fresh: "x \<in> set rows \<Longrightarrow> pk x \<noteq> Some (next_pk rows)"
proof
  assume "x \<in> set rows" "pk x = Some (next_pk rows)"
  then have "next_pk rows < next_pk rows" by (rule next_pk_gt)
  then show False by simp
qed

subsection \<open>The constraint of the reservation table\<close>

lemma one_active_per_bookI:
  assumes "\<And>x y. x \<in> set rows \<Longrightarrow> y \<in> set rows \<Longrightarrow> is_active x \<Longrightarrow> is_active y \<Longrightarrow>
             book x = book y \<Longrightarrow> pk x = pk y"
  shows "one_active_per_book rows"
  unfolding one_active_per_book_def list_all_iff
  by (intro ballI impI) (elim conjE, rule assms)

lemma one_active_per_bookD:
  assumes "one_active_per_book rows" "x \<in> set rows" "y \<in> set rows"
    "is_active x" "is_active y" "book x = book y"
  shows "pk x = pk y"
  using assms unfolding one_active_per_book_def list_all_iff by blast

lemma unique_activeD:
  assumes "unique_active_reservation_per_book rows r" "is_active r" "x \<in> set rows"
    "is_active x" "book x = book r"
  shows "pk x = pk r"
  using assms unfolding unique_active_reservation_per_book_def list_ex_iff by blast

lemma unique_activeI:
  assumes "\<And>x. x \<in> set rows \<Longrightarrow> is_active x \<Longrightarrow> book x = book r \<Longrightarrow> pk x = pk r"
  shows "unique_active_reservation_per_book rows r"
  unfolding unique_active_reservation_per_book_def list_ex_iff using assms by blast

lemma pk_ok_append:
  assumes "pk_ok rows" "pk r \<noteq> None" "\<not> list_ex (\<lambda>x. pk x = pk r) rows"
  shows "pk_ok (rows @ [r])"
proof -
  from assms(3) have "pk r \<notin> set (map pk rows)" by (auto simp: list_ex_iff)
  with assms(1,2) show ?thesis by (simp add: pk_ok_def)
qed

lemma map_pk_update: "map pk (map (\<lambda>x. if pk x = pk r then r else x) rows) = map pk rows"
  by (induction rows) simp_all

lemma list_all_pk_update:
  "list_all (\<lambda>x. pk x \<noteq> None) rows \<Longrightarrow>
   list_all (\<lambda>x. pk x \<noteq> None) (map (\<lambda>x. if pk x = pk r then r else x) rows)"
proof (induction rows)
  case Nil
  show ?case by simp
next
  case (Cons a rows)
  then have "pk a \<noteq> None" by simp
  then have "pk (if pk a = pk r then r else a) \<noteq> None"
    by (cases "pk a = pk r") simp_all
  with Cons show ?case by simp
qed

lemma pk_ok_update:
  assumes "pk_ok rows"
  shows "pk_ok (map (\<lambda>x. if pk x = pk r then r else x) rows)"
proof -
  from assms have "distinct (map pk rows)" and "list_all (\<lambda>x. pk x \<noteq> None) rows"
    unfolding pk_ok_def by blast+
  then show ?thesis
    unfolding pk_ok_def map_pk_update using list_all_pk_update by blast
qed

lemma one_active_append:
  assumes "one_active_per_book rows" "unique_active_reservation_per_book rows r"
  shows "one_active_per_book (rows @ [r])"
proof (rule one_active_per_bookI)
  fix x y
  assume x: "x \<in> set (rows @ [r])" and y: "y \<in> set (rows @ [r])"
    and a: "is_active x" "is_active y" and b: "book x = book y"
  consider "x \<in> set rows" "y \<in> set rows" | "x = r" "y = r"
    | "x \<in> set rows" "y = r" | "x = r" "y \<in> set rows"
    using x y by auto
  then show "pk x = pk y"
  proof cases
    case 1
    then show ?thesis using a b by (intro one_active_per_bookD[OF assms(1)])
  next
    case 2
    then show ?thesis by simp
  next
    case 3
    then show ?thesis using unique_activeD[OF assms(2), of x] a b by simp
  next
    case 4
    then show ?thesis using unique_activeD[OF assms(2), of y] a b by simp
  qed
qed

lemma one_active_update:
  assumes "one_active_per_book rows" "unique_active_reservation_per_book rows r"
  shows "one_active_per_book (map (\<lambda>x. if pk x = pk r then r else x) rows)"
proof (rule one_active_per_bookI)
  fix x y
  assume x: "x \<in> set (map (\<lambda>x. if pk x = pk r then r else x) rows)"
    and y: "y \<in> set (map (\<lambda>x. if pk x = pk r then r else x) rows)"
    and a: "is_active x" "is_active y" and b: "book x = book y"
  have mem: "z = r \<or> (z \<in> set rows \<and> pk z \<noteq> pk r)"
    if "z \<in> set (map (\<lambda>x. if pk x = pk r then r else x) rows)" for z
  proof -
    from that obtain w where "w \<in> set rows" "z = (if pk w = pk r then r else w)"
      by (auto simp: image_iff)
    then show ?thesis by (cases "pk w = pk r") simp_all
  qed
  note x' = mem[OF x] and y' = mem[OF y]
  consider "x = r" "y = r" | "x \<in> set rows" "y \<in> set rows"
    | "x \<in> set rows" "pk x \<noteq> pk r" "y = r" | "x = r" "y \<in> set rows" "pk y \<noteq> pk r"
    using x' y' by blast
  then show "pk x = pk y"
  proof cases
    case 1
    then show ?thesis by simp
  next
    case 2
    then show ?thesis using a b by (intro one_active_per_bookD[OF assms(1)])
  next
    case 3
    then show ?thesis using unique_activeD[OF assms(2), of x] a b by simp
  next
    case 4
    then show ?thesis using unique_activeD[OF assms(2), of y] a b by simp
  qed
qed

subsection \<open>What a write does\<close>

lemma Model_save_Inr:
  assumes "Model_save db now self = Inr (r, db')"
  shows "books db' = books db" and "readers db' = readers db"
    and "fk_ok (books db) (book r)" and "fk_ok (readers db) (reader r)"
    and "unique_active_reservation_per_book (reservations db) r"
    and "pk r \<noteq> None"
    and "(\<not> list_ex (\<lambda>x. pk x = pk r) (reservations db)
            \<and> reservations db' = reservations db @ [r])
         \<or> reservations db' = map (\<lambda>x. if pk x = pk r then r else x) (reservations db)"
proof -
  define rows where "rows = reservations db"
  define adding where "adding = (pk self = None \<or> \<not> list_ex (\<lambda>x. pk x = pk self) rows)"
  define keyed where "keyed = (if pk self = None then self\<lparr>pk := Some (next_pk rows)\<rparr> else self)"
  define r0 where "r0 = (if adding then keyed\<lparr>reservation_date := Some now\<rparr> else keyed)"
  define rows' where "rows' = (if adding then rows @ [r0]
                         else map (\<lambda>x. if pk x = pk r0 then r0 else x) rows)"
  have eq: "Model_save db now self =
     (if fk_errors ''book'' (books db) (book r0) \<noteq> []
            \<or> fk_errors ''reader'' (readers db) (reader r0) \<noteq> [] then
           Inl (IntegrityError ''foreign_key'')
         else if \<not> unique_active_reservation_per_book rows r0 then
           Inl (IntegrityError ''unique_active_reservation_per_book'')
         else Inr (r0, db\<lparr>reservations := rows'\<rparr>))"
    unfolding Model_save_def Let_def rows_def adding_def keyed_def r0_def rows'_def ..
  from assms have fk: "fk_errors ''book'' (books db) (book r0) = []"
      "fk_errors ''reader'' (readers db) (reader r0) = []"
    and u: "unique_active_reservation_per_book rows r0"
    and r: "r = r0" and db': "db' = db\<lparr>reservations := rows'\<rparr>"
    unfolding eq by (simp_all split: if_splits)
  show "books db' = books db" "readers db' = readers db" by (simp_all add: db')
  show "fk_ok (books db) (book r)" "fk_ok (readers db) (reader r)"
    using fk by (simp_all add: r fk_errors_ok)
  show "unique_active_reservation_per_book (reservations db) r"
    using u by (simp add: r rows_def)
  have pkr: "pk r0 = pk keyed" by (simp add: r0_def)
  show "pk r \<noteq> None"
    unfolding r pkr keyed_def by (cases "pk self") simp_all
  have fresh: "\<not> list_ex (\<lambda>x. pk x = pk r0) rows" if adding
  proof (cases "pk self")
    case None
    then have "pk r0 = Some (next_pk rows)" by (simp add: pkr keyed_def)
    then show ?thesis using next_pk_fresh[of _ rows] by (auto simp: list_ex_iff)
  next
    case (Some k)
    then have "pk r0 = pk self" by (simp add: pkr keyed_def)
    with that Some show ?thesis by (simp add: adding_def)
  qed
  show "(\<not> list_ex (\<lambda>x. pk x = pk r) (reservations db)
            \<and> reservations db' = reservations db @ [r])
         \<or> reservations db' = map (\<lambda>x. if pk x = pk r then r else x) (reservations db)"
  proof (cases adding)
    case True
    with fresh show ?thesis by (simp add: r db' rows'_def rows_def)
  next
    case False
    then show ?thesis by (simp add: r db' rows'_def rows_def)
  qed
qed

lemma Model_save_keeps_constraints:
  assumes "Model_save db now self = Inr (r, db')"
    and "pk_ok (reservations db)" and "one_active_per_book (reservations db)"
  shows "pk_ok (reservations db') \<and> one_active_per_book (reservations db')"
proof -
  note s = Model_save_Inr[OF assms(1)]
  from s(7) show ?thesis
  proof
    assume a: "\<not> list_ex (\<lambda>x. pk x = pk r) (reservations db)
                 \<and> reservations db' = reservations db @ [r]"
    then show ?thesis
      using pk_ok_append[OF assms(2) s(6)] one_active_append[OF assms(3) s(5)] by simp
  next
    assume "reservations db' = map (\<lambda>x. if pk x = pk r then r else x) (reservations db)"
    then show ?thesis
      using pk_ok_update[OF assms(2)] one_active_update[OF assms(3) s(5)] by simp
  qed
qed


lemma Model_save_wf:
  assumes "Model_save db now self = Inr (r, db')" and "wf_db db"
  shows "wf_db db'"
proof -
  note s = Model_save_Inr[OF assms(1)]
  from assms(2) have c: "pk_ok (reservations db)" "one_active_per_book (reservations db)"
    and cat: "pk_ok (books db)" "pk_ok (readers db)"
    and fk: "\<And>x. x \<in> set (reservations db) \<Longrightarrow>
               fk_ok (books db) (book x) \<and> fk_ok (readers db) (reader x)"
    unfolding wf_db_def list_all_iff by blast+
  have "fk_ok (books db) (book x) \<and> fk_ok (readers db) (reader x)"
    if "x \<in> set (reservations db')" for x
  proof -
    from s(7) that have "x = r \<or> x \<in> set (reservations db)"
      by (auto split: if_splits)
    then show ?thesis using s(3,4) fk by blast
  qed
  then have "list_all (\<lambda>x. fk_ok (books db') (book x) \<and> fk_ok (readers db') (reader x))
               (reservations db')"
    unfolding list_all_iff s(1,2) by blast
  with Model_save_keeps_constraints[OF assms(1) c] cat show ?thesis
    unfolding wf_db_def s(1,2) by blast
qed

subsection \<open>Every operation writes at most once\<close>

lemma Reservation_save_Inr:
  "Reservation_save db now self = Inr p \<Longrightarrow> Model_save db now self = Inr p"
  by (simp add: Reservation_save_def split: sum.splits)

lemma cancel_writes:
  assumes "cancel db now self = Inr (ok, db')"
  shows "db' = db \<or> (\<exists>s r. Model_save db now s = Inr (r, db'))"
proof (cases "is_active self")
  case True
  with assms obtain r where
    "Reservation_save db now (self\<lparr>is_active := False, cancelled_at := Some now\<rparr>) = Inr (r, db')"
    by (auto simp: cancel_def split: sum.splits)
  then show ?thesis by (blast dest: Reservation_save_Inr)
next
  case False
  with assms show ?thesis by (simp add: cancel_def)
qed

lemma reactivate_writes:
  assumes "reactivate db now self = Inr (ok, db')"
  shows "db' = db \<or> (\<exists>s r. Model_save db now s = Inr (r, db'))"
proof -
  from assms obtain b where b: "related (books db) (book self) = Inr b"
    by (auto simp: reactivate_def split: sum.splits)
  show ?thesis
  proof (cases "\<not> is_active self \<and> is_available db b")
    case True
    with assms b obtain r where
      "Reservation_save db now (self\<lparr>is_active := True, cancelled_at := None\<rparr>) = Inr (r, db')"
      by (auto simp: reactivate_def split: sum.splits)
    then show ?thesis by (blast dest: Reservation_save_Inr)
  next
    case False
    with assms b show ?thesis by (auto simp: reactivate_def split: if_splits)
  qed
qed

lemma CancelReservation_writes:
  "snd (CancelReservation db now k) = db
   \<or> (\<exists>s r. Model_save db now s = Inr (r, snd (CancelReservation db now k)))"
proof (cases "get_object_or_404 (reservations db) k")
  case (Inl e)
  then show ?thesis by (simp add: CancelReservation_def)
next
  case (Inr self)
  show ?thesis
  proof (cases "cancel db now self")
    case (Inl e)
    with Inr show ?thesis by (simp add: CancelReservation_def)
  next
    case (Inr p)
    obtain ok db' where p: "p = (ok, db')" by (cases p)
    from cancel_writes[OF Inr[unfolded p]] \<open>get_object_or_404 (reservations db) k = Inr self\<close> Inr p
    show ?thesis by (simp add: CancelReservation_def)
  qed
qed

lemma ReactivateReservation_writes:
  "snd (ReactivateReservation db now k) = db
   \<or> (\<exists>s r. Model_save db now s = Inr (r, snd (ReactivateReservation db now k)))"
proof (cases "get_object_or_404 (reservations db) k")
  case (Inl e)
  then show ?thesis by (simp add: ReactivateReservation_def)
next
  case (Inr self)
  show ?thesis
  proof (cases "reactivate db now self")
    case (Inl e)
    with Inr show ?thesis by (simp add: ReactivateReservation_def)
  next
    case (Inr p)
    obtain ok db' where p: "p = (ok, db')" by (cases p)
    from reactivate_writes[OF Inr[unfolded p]] \<open>get_object_or_404 (reservations db) k = Inr self\<close> Inr p
    show ?thesis by (simp add: ReactivateReservation_def)
  qed
qed

lemma CreateReservation_writes:
  "snd (CreateReservation db now b r n) = db
   \<or> (\<exists>s r'. Model_save db now s = Inr (r', snd (CreateReservation db now b r n)))"
proof (cases "get_object_or_404 (books db) b")
  case (Inl e)
  then show ?thesis by (simp add: CreateReservation_def)
next
  case b: (Inr bk)
  show ?thesis
  proof (cases "get_object_or_404 (readers db) r")
    case (Inl e)
    with b show ?thesis by (simp add: CreateReservation_def)
  next
    case rd: (Inr rdr)
    show ?thesis
    proof (cases "Reservation_objects_create db now (pk bk) (pk rdr) n")
      case (Inl e)
      with b rd show ?thesis by (simp add: CreateReservation_def)
    next
      case (Inr p)
      obtain res db' where p: "p = (res, db')" by (cases p)
      from Inr have "\<exists>s. Model_save db now s = Inr (res, db')"
        unfolding Reservation_objects_create_def p by (blast dest: Reservation_save_Inr)
      with b rd Inr p show ?thesis by (simp add: CreateReservation_def) blast
    qed
  qed
qed

subsection \<open>The constraints hold in every reachable state\<close>

lemma reachable_constraints:
  "reachable db \<Longrightarrow> pk_ok (reservations db) \<and> one_active_per_book (reservations db)"
proof (induction rule: reachable.induct)
  case (initial db)
  then show ?case by (simp add: pk_ok_def one_active_per_book_def)
next
  case (create db now b r n)
  from CreateReservation_writes[of db now b r n] show ?case
    using create.IH by (auto dest: Model_save_keeps_constraints)
next
  case (cancel db now k)
  from CancelReservation_writes[of db now k] show ?case
    using cancel.IH by (auto dest: Model_save_keeps_constraints)
next
  case (reactivate db now k)
  from ReactivateReservation_writes[of db now k] show ?case
    using reactivate.IH by (auto dest: Model_save_keeps_constraints)
qed

lemma constraints_count:
  assumes "pk_ok (reservations db)" "one_active_per_book (reservations db)"
  shows "active_count_of_book db b \<le> 1"
  unfolding active_count_of_book_def
proof (rule length_filter_le_1)
  show "distinct (map pk (reservations db))" using assms(1) by (simp add: pk_ok_def)
next
  fix x y
  assume "x \<in> set (reservations db)" "y \<in> set (reservations db)"
    "book x = Some b \<and> is_active x" "book y = Some b \<and> is_active y"
  then show "pk x = pk y"
    by (intro one_active_per_bookD[OF assms(2)]) simp_all
qed

subsection \<open>Evaluating the small library\<close>

lemmas query_defs = objects_get_def get_object_or_404_def related_def is_available_def
  get_active_reservations_def
lemmas save_defs = Reservation_clean_def fk_errors_def clean_fields_def full_clean_def
  collect_errors_def validate_constraints_def
  unique_active_reservation_per_book_def next_pk_def Model_save_def Reservation_save_def
  Reservation_objects_create_def Let_def
lemmas engine_defs = cancel_def reactivate_def CreateReservation_def CancelReservation_def
  ReactivateReservation_def
lemmas library_defs = Dune_def Emma_def Ann_def Bob_def Res1_def Res2_def Res3_def library_def
  cancelled_def

lemma create_Res1:
  "CreateReservation (library []) 5 1 1 ''first'' = (Inr Res1, library [Res1])"
  by (simp add: query_defs save_defs engine_defs library_defs)

lemma reachable_Res1: "reachable (library [Res1])"
proof -
  have "reachable (library [])" by (rule reachable.initial) (simp add: library_def)
  from reachable.create[OF this, of 5 1 1 "''first''"] show ?thesis
    unfolding create_Res1 snd_conv .
qed

subsection \<open>Saving a stored reservation\<close>

lemma wf_dbD:
  assumes "wf_db db"
  shows "pk_ok (books db)" and "pk_ok (readers db)" and "pk_ok (reservations db)"
    and "one_active_per_book (reservations db)"
    and "\<And>x. x \<in> set (reservations db) \<Longrightarrow> fk_ok (books db) (book x)"
    and "\<And>x. x \<in> set (reservations db) \<Longrightarrow> fk_ok (readers db) (reader x)"
    and "\<And>x. x \<in> set (reservations db) \<Longrightarrow> pk x \<noteq> None"
    and "distinct (map pk (reservations db))"
  using assms unfolding wf_db_def pk_ok_def list_all_iff by blast+

lemma full_clean_stored:
  assumes "pk self \<noteq> None" "fk_ok (books db) (book self)" "fk_ok (readers db) (reader self)"
    and "unique_active_reservation_per_book (reservations db) self"
  shows "full_clean db self = Inr ()"
proof -
  from assms(1) obtain k where "pk self = Some k" by blast
  then have "Reservation_clean db self = Inr ()" by (simp add: Reservation_clean_def)
  then show ?thesis
    using assms(2,3,4)
    by (simp add: full_clean_def clean_fields_def fk_ok_errors collect_errors_def
        validate_constraints_def)
qed

lemma Reservation_save_update:
  assumes "wf_db db" "x \<in> set (reservations db)"
    and "pk self = pk x" "book self = book x" "reader self = reader x"
    and "unique_active_reservation_per_book (reservations db) self"
  shows "Reservation_save db now self =
           Inr (self, db\<lparr>reservations :=
                           map (\<lambda>y. if pk y = pk self then self else y) (reservations db)\<rparr>)"
proof -
  note wf = wf_dbD[OF assms(1)]
  have fk: "fk_ok (books db) (book self)" "fk_ok (readers db) (reader self)"
    using wf(5,6)[OF assms(2)] assms(4,5) by simp_all
  have pk: "pk self \<noteq> None" using wf(7)[OF assms(2)] assms(3) by simp
  have ex: "list_ex (\<lambda>y. pk y = pk self) (reservations db)"
    using assms(2,3) by (auto simp: list_ex_iff)
  have "Model_save db now self =
           Inr (self, db\<lparr>reservations :=
                           map (\<lambda>y. if pk y = pk self then self else y) (reservations db)\<rparr>)"
  proof -
    from pk obtain k where "pk self = Some k" by blast
    with ex assms(6) show ?thesis
      by (simp add: Model_save_def Let_def fk_ok_errors[OF fk(1)] fk_ok_errors[OF fk(2)])
  qed
  then show ?thesis by (simp add: Reservation_save_def full_clean_stored[OF pk fk assms(6)])
qed

lemma get_after_update:
  assumes "distinct (map pk rows)" "x \<in> set rows" "pk self = pk x" "pk x = Some k"
  shows "get_object_or_404 (map (\<lambda>y. if pk y = pk self then self else y) rows) k = Inr self"
proof (rule get_object_or_404_found)
  show "distinct (map pk (map (\<lambda>y. if pk y = pk self then self else y) rows))"
    using assms(1) by (simp only: map_pk_update)
  have "self = (\<lambda>y. if pk y = pk self then self else y) x" using assms(3) by simp
  then have "self \<in> (\<lambda>y. if pk y = pk self then self else y) ` set rows"
    using assms(2) by (rule image_eqI)
  then show "self \<in> set (map (\<lambda>y. if pk y = pk self then self else y) rows)"
    by (simp only: set_map)
  show "pk self = Some k" using assms(3,4) by simp
qed

lemma inactive_unique:
  "\<not> is_active r \<Longrightarrow> unique_active_reservation_per_book rows r"
  by (simp add: unique_active_reservation_per_book_def)

subsection \<open>CancelReservation\<close>

lemma CancelReservation_missing:
  "\<not> list_ex (\<lambda>x. pk x = Some k) (reservations db) \<Longrightarrow>
   CancelReservation db now k = (Inl Http404, db)"
  by (simp add: CancelReservation_def get_object_or_404_missing)

lemma CancelReservation_inactive:
  assumes "wf_db db" "x \<in> set (reservations db)" "pk x = Some k" "\<not> is_active x"
  shows "CancelReservation db now k = (Inr False, db)"
  using get_object_or_404_found[OF wf_dbD(8)[OF assms(1)] assms(2,3)] assms(4)
  by (simp add: CancelReservation_def cancel_def)

lemma CancelReservation_active:
  assumes "wf_db db" "x \<in> set (reservations db)" "pk x = Some k" "is_active x"
  shows "CancelReservation db now k =
           (Inr True,
            db\<lparr>reservations :=
                 map (\<lambda>y. if pk y = Some k then x\<lparr>is_active := False, cancelled_at := Some now\<rparr>
                          else y) (reservations db)\<rparr>)"
proof -
  let ?self = "x\<lparr>is_active := False, cancelled_at := Some now\<rparr>"
  have "Reservation_save db now ?self =
          Inr (?self, db\<lparr>reservations :=
                 map (\<lambda>y. if pk y = pk ?self then ?self else y) (reservations db)\<rparr>)"
    by (rule Reservation_save_update[OF assms(1,2)]) (simp_all add: inactive_unique)
  with get_object_or_404_found[OF wf_dbD(8)[OF assms(1)] assms(2,3)] assms(3,4)
  show ?thesis by (simp add: CancelReservation_def cancel_def)
qed

subsection \<open>ReactivateReservation\<close>

lemma ReactivateReservation_missing:
  "\<not> list_ex (\<lambda>x. pk x = Some k) (reservations db) \<Longrightarrow>
   ReactivateReservation db now k = (Inl Http404, db)"
  by (simp add: ReactivateReservation_def get_object_or_404_missing)

lemma related_book:
  assumes "wf_db db" "x \<in> set (reservations db)"
  obtains b where "related (books db) (book x) = Inr b" "pk b = book x"
proof -
  from wf_dbD(5)[OF assms] obtain k b where
    "book x = Some k" "b \<in> set (books db)" "pk b = Some k" by (rule fk_okE)
  moreover from wf_dbD(1)[OF assms(1)] have "distinct (map pk (books db))"
    by (simp add: pk_ok_def)
  ultimately have "related (books db) (book x) = Inr b" "pk b = book x"
    by (simp_all add: related_found)
  then show ?thesis by (rule that)
qed

lemma ReactivateReservation_reserved:
  assumes "wf_db db" "x \<in> set (reservations db)" "pk x = Some k"
    and "y \<in> set (reservations db)" "book y = book x" "is_active y"
  shows "ReactivateReservation db now k =
           (Inl (ValidationError [(''__all__'', ReservedBySomeoneElse)]), db)"
proof -
  from assms(1,2) obtain b where b: "related (books db) (book x) = Inr b" "pk b = book x"
    by (rule related_book)
  have "\<not> is_available db b"
    using assms(4,5,6) b(2) by (auto simp: is_available_def list_ex_iff)
  with get_object_or_404_found[OF wf_dbD(8)[OF assms(1)] assms(2,3)] b(1)
  show ?thesis by (simp add: ReactivateReservation_def reactivate_def)
qed

lemma ReactivateReservation_free:
  assumes "wf_db db" "x \<in> set (reservations db)" "pk x = Some k" "\<not> is_active x"
    and "\<not> list_ex (\<lambda>y. book y = book x \<and> is_active y) (reservations db)"
  shows "ReactivateReservation db now k =
           (Inr True,
            db\<lparr>reservations :=
                 map (\<lambda>y. if pk y = Some k then x\<lparr>is_active := True, cancelled_at := None\<rparr>
                          else y) (reservations db)\<rparr>)"
proof -
  let ?self = "x\<lparr>is_active := True, cancelled_at := None\<rparr>"
  from assms(1,2) obtain b where b: "related (books db) (book x) = Inr b" "pk b = book x"
    by (rule related_book)
  have av: "is_available db b" using assms(5) b(2) by (simp add: is_available_def)
  have "unique_active_reservation_per_book (reservations db) ?self"
    using assms(5) by (auto simp: unique_active_reservation_per_book_def list_ex_iff)
  then have "Reservation_save db now ?self =
          Inr (?self, db\<lparr>reservations :=
                 map (\<lambda>y. if pk y = pk ?self then ?self else y) (reservations db)\<rparr>)"
    by (intro Reservation_save_update[OF assms(1,2)]) simp_all
  with get_object_or_404_found[OF wf_dbD(8)[OF assms(1)] assms(2,3)] assms(3,4) b(1) av
  show ?thesis by (simp add: ReactivateReservation_def reactivate_def)
qed

lemmas wf_defs = wf_db_def pk_ok_def fk_ok_def one_active_per_book_def

subsection \<open>The states of the scenarios are well formed\<close>

lemma wf_Res1: "wf_db (library [Res1])"
  by (simp add: wf_defs library_defs)

lemma wf_cancelled_Res1: "wf_db (library [cancelled 6 Res1])"
  by (simp add: wf_defs library_defs)

lemma wf_cancelled_Res1_Res2: "wf_db (library [cancelled 6 Res1, Res2])"
  by (simp add: wf_defs library_defs)

lemma lookup_exists:
  assumes "list_ex (\<lambda>x. pk x = Some k) rows"
  obtains x where "x \<in> set rows" "pk x = Some k"
  using assms by (auto simp: list_ex_iff)

subsection \<open>Round trip and frame\<close>

lemma pk_inj:
  assumes "distinct (map pk rows)" "x \<in> set rows" "y \<in> set rows" "pk x = pk y"
  shows "x = y"
proof -
  from assms(1) have "inj_on pk (set rows)" by (simp add: distinct_map)
  from inj_onD[OF this assms(4,2,3)] show ?thesis .
qed

lemma CancelReservation_effect:
  assumes "wf_db db"
  shows "snd (CancelReservation db now k) = db
       \<or> (\<exists>x a c. x \<in> set (reservations db) \<and> pk x = Some k
             \<and> snd (CancelReservation db now k) =
                 db\<lparr>reservations :=
                      map (\<lambda>y. if pk y = Some k then x\<lparr>is_active := a, cancelled_at := c\<rparr>
                               else y) (reservations db)\<rparr>)"
proof (cases "list_ex (\<lambda>x. pk x = Some k) (reservations db)")
  case False
  then show ?thesis by (simp add: CancelReservation_missing)
next
  case True
  then obtain x where x: "x \<in> set (reservations db)" "pk x = Some k" by (rule lookup_exists)
  show ?thesis
  proof (cases "is_active x")
    case True
    from CancelReservation_active[OF assms x True, of now] x show ?thesis
      by (intro disjI2 exI[of _ x] exI[of _ False] exI[of _ "Some now"]) simp
  next
    case False
    from CancelReservation_inactive[OF assms x False, of now] show ?thesis by simp
  qed
qed

lemma ReactivateReservation_effect:
  assumes "wf_db db"
  shows "snd (ReactivateReservation db now k) = db
       \<or> (\<exists>x a c. x \<in> set (reservations db) \<and> pk x = Some k
             \<and> snd (ReactivateReservation db now k) =
                 db\<lparr>reservations :=
                      map (\<lambda>y. if pk y = Some k then x\<lparr>is_active := a, cancelled_at := c\<rparr>
                               else y) (reservations db)\<rparr>)"
proof (cases "list_ex (\<lambda>x. pk x = Some k) (reservations db)")
  case False
  then show ?thesis by (simp add: ReactivateReservation_missing)
next
  case True
  then obtain x where x: "x \<in> set (reservations db)" "pk x = Some k" by (rule lookup_exists)
  show ?thesis
  proof (cases "list_ex (\<lambda>y. book y = book x \<and> is_active y) (reservations db)")
    case True
    then obtain y where "y \<in> set (reservations db)" "book y = book x" "is_active y"
      by (auto simp: list_ex_iff)
    from ReactivateReservation_reserved[OF assms x this, of now] show ?thesis by simp
  next
    case False
    then have "\<not> is_active x" using x(1) by (auto simp: list_ex_iff)
    from ReactivateReservation_free[OF assms x this False, of now] x show ?thesis
      by (intro disjI2 exI[of _ x] exI[of _ True] exI[of _ None]) simp
  qed
qed

lemma frame_refl:
  "list_all2 (\<lambda>y y'. if pk y = Some k
                      then y' = y\<lparr>is_active := is_active y', cancelled_at := cancelled_at y'\<rparr>
                      else y' = y) rows rows"
  by (simp add: list_all2_same)

lemma frame_update:
  assumes "distinct (map pk rows)" "x \<in> set rows" "pk x = Some k"
  shows "list_all2 (\<lambda>y y'. if pk y = Some k
                      then y' = y\<lparr>is_active := is_active y', cancelled_at := cancelled_at y'\<rparr>
                      else y' = y)
           rows (map (\<lambda>y. if pk y = Some k then x\<lparr>is_active := a, cancelled_at := c\<rparr> else y) rows)"
proof -
  have "y = x" if "y \<in> set rows" "pk y = Some k" for y
    using pk_inj[OF assms(1) that(1) assms(2)] that(2) assms(3) by simp
  then show ?thesis by (auto simp: list_all2_map2 list_all2_same)
qed

lemma frame_effect:
  assumes "wf_db db"
    and "db' = db
       \<or> (\<exists>x a c. x \<in> set (reservations db) \<and> pk x = Some k
             \<and> db' = db\<lparr>reservations :=
                      map (\<lambda>y. if pk y = Some k then x\<lparr>is_active := a, cancelled_at := c\<rparr>
                               else y) (reservations db)\<rparr>)"
  shows "books db' = books db \<and> readers db' = readers db
       \<and> list_all2 (\<lambda>y y'. if pk y = Some k
                      then y' = y\<lparr>is_active := is_active y', cancelled_at := cancelled_at y'\<rparr>
                      else y' = y) (reservations db) (reservations db')"
  using assms(2)
proof
  assume "db' = db"
  then show ?thesis using frame_refl[of k "reservations db"] by simp
next
  assume "\<exists>x a c. x \<in> set (reservations db) \<and> pk x = Some k
             \<and> db' = db\<lparr>reservations :=
                      map (\<lambda>y. if pk y = Some k then x\<lparr>is_active := a, cancelled_at := c\<rparr>
                               else y) (reservations db)\<rparr>"
  then obtain x a c where x: "x \<in> set (reservations db)" "pk x = Some k"
    and db': "db' = db\<lparr>reservations :=
                      map (\<lambda>y. if pk y = Some k then x\<lparr>is_active := a, cancelled_at := c\<rparr>
                               else y) (reservations db)\<rparr>" by blast
  from frame_update[OF wf_dbD(8)[OF assms(1)] x, where a=a and c=c] show ?thesis by (simp add: db')
qed

subsection \<open>CreateReservation\<close>

lemma active_on_book_unique:
  assumes "wf_db db" "x \<in> set (reservations db)" "book x = Some b" "is_active x"
  shows "filter (\<lambda>y. book y = Some b \<and> is_active y) (reservations db) = [x]"
proof -
  let ?f = "filter (\<lambda>y. book y = Some b \<and> is_active y) (reservations db)"
  have le: "length ?f \<le> 1"
    using constraints_count[OF wf_dbD(3,4)[OF assms(1)], of b]
    by (simp add: active_count_of_book_def)
  have mem: "x \<in> set ?f" using assms(2,3,4) by simp
  show ?thesis
  proof (cases ?f)
    case Nil
    with mem show ?thesis by simp
  next
    case (Cons a as)
    with le have "as = []" by simp
    with Cons mem show ?thesis by simp
  qed
qed

lemma related_reader:
  assumes "wf_db db" "x \<in> set (reservations db)" "er \<in> set (readers db)" "pk er = reader x"
  shows "related (readers db) (reader x) = Inr er"
proof -
  from wf_dbD(6)[OF assms(1,2)] obtain k where k: "reader x = Some k"
    by (rule fk_okE)
  from wf_dbD(2)[OF assms(1)] have "distinct (map pk (readers db))" by (simp add: pk_ok_def)
  from related_found[OF this assms(3), of k] assms(4) k show ?thesis by simp
qed

lemma CreateReservation_no_book:
  "\<not> list_ex (\<lambda>x. pk x = Some b) (books db) \<Longrightarrow>
   CreateReservation db now b r n = (Inl Http404, db)"
  by (simp add: CreateReservation_def get_object_or_404_missing)

lemma CreateReservation_no_reader:
  assumes "wf_db db" "\<not> list_ex (\<lambda>x. pk x = Some r) (readers db)"
  shows "CreateReservation db now b r n = (Inl Http404, db)"
proof (cases "list_ex (\<lambda>x. pk x = Some b) (books db)")
  case False
  then show ?thesis by (rule CreateReservation_no_book)
next
  case True
  then obtain bk where "bk \<in> set (books db)" "pk bk = Some b" by (rule lookup_exists)
  moreover from wf_dbD(1)[OF assms(1)] have "distinct (map pk (books db))"
    by (simp add: pk_ok_def)
  ultimately have "get_object_or_404 (books db) b = Inr bk"
    by (simp add: get_object_or_404_found)
  then show ?thesis
    using assms(2) by (simp add: CreateReservation_def get_object_or_404_missing)
qed

text \<open>The lookups of a book and a reader that exist, and what \<open>clean\<close> reads of them.\<close>

lemma lookups:
  assumes "wf_db db" "bk \<in> set (books db)" "pk bk = Some b"
    "rd \<in> set (readers db)" "pk rd = Some r"
  shows "get_object_or_404 (books db) b = Inr bk" "get_object_or_404 (readers db) r = Inr rd"
    "related (books db) (Some b) = Inr bk" "related (readers db) (Some r) = Inr rd"
    "fk_errors f (books db) (Some b) = []" "fk_errors f (readers db) (Some r) = []"
proof -
  from wf_dbD(1,2)[OF assms(1)] have d: "distinct (map pk (books db))"
    "distinct (map pk (readers db))" by (simp_all add: pk_ok_def)
  show "get_object_or_404 (books db) b = Inr bk" "get_object_or_404 (readers db) r = Inr rd"
    using d assms(2-5) by (simp_all add: get_object_or_404_found)
  show "related (books db) (Some b) = Inr bk" "related (readers db) (Some r) = Inr rd"
    using d assms(2-5) by (simp_all add: related_found)
  have "list_ex (\<lambda>x. pk x = Some b) (books db)" "list_ex (\<lambda>x. pk x = Some r) (readers db)"
    using assms(2-5) by (auto simp: list_ex_iff)
  then show "fk_errors f (books db) (Some b) = []" "fk_errors f (readers db) (Some r) = []"
    by (simp_all add: fk_errors_def)
qed

lemma CreateReservation_book_reserved:
  assumes "wf_db db" "bk \<in> set (books db)" "pk bk = Some b"
    "rd \<in> set (readers db)" "pk rd = Some r"
    and "x \<in> set (reservations db)" "book x = Some b" "is_active x"
    and "er \<in> set (readers db)" "pk er = reader x"
  shows "CreateReservation db now b r n =
           (Inl (ValidationError [(''book'', BookAlreadyReserved (title bk) (name er))]), db)"
proof -
  note l = lookups[OF assms(1-5)]
  have ex: "list_ex (\<lambda>y. book y = Some b \<and> is_active y) (reservations db)"
    using assms(6,7,8) by (auto simp: list_ex_iff)
  have get: "objects_get (\<lambda>y. book y = Some b \<and> is_active y) (reservations db) = Inr x"
    using active_on_book_unique[OF assms(1,6,7,8)] by (simp add: objects_get_Inr)
  have rel: "related (readers db) (reader x) = Inr er"
    by (rule related_reader[OF assms(1,6,9,10)])
  have "Reservation_clean db
          \<lparr>pk = None, book = Some b, reader = Some r, reservation_date = None,
           is_active = True, cancelled_at = None, notes = n\<rparr>
        = Inl (ValidationError [(''book'', BookAlreadyReserved (title bk) (name er))])"
    by (simp add: Reservation_clean_def l(3,4) ex get rel)
  then have "Reservation_objects_create db now (Some b) (Some r) n
        = Inl (ValidationError [(''book'', BookAlreadyReserved (title bk) (name er))])"
    by (simp add: Reservation_objects_create_def Reservation_save_def full_clean_def
        clean_fields_def l(5,6) collect_errors_def validate_constraints_def)
  then show ?thesis by (simp add: CreateReservation_def l(1,2) assms(3,5))
qed

lemma CreateReservation_reader_reserved:
  assumes "wf_db db" "bk \<in> set (books db)" "pk bk = Some b"
    "rd \<in> set (readers db)" "pk rd = Some r"
    and "\<not> list_ex (\<lambda>x. book x = Some b \<and> is_active x) (reservations db)"
    and "list_ex (\<lambda>x. reader x = Some r \<and> is_active x) (reservations db)"
  shows "CreateReservation db now b r n =
           (Inl (ValidationError [(''reader'', ReaderAlreadyReserved (name rd))]), db)"
proof -
  note l = lookups[OF assms(1-5)]
  have u: "unique_active_reservation_per_book (reservations db) r'" if "book r' = Some b" for r'
    using assms(6) that by (auto simp: unique_active_reservation_per_book_def list_ex_iff)
  have "Reservation_clean db
          \<lparr>pk = None, book = Some b, reader = Some r, reservation_date = None,
           is_active = True, cancelled_at = None, notes = n\<rparr>
        = Inl (ValidationError [(''reader'', ReaderAlreadyReserved (name rd))])"
    by (simp add: Reservation_clean_def l(3,4) assms(6,7))
  then have "Reservation_objects_create db now (Some b) (Some r) n
        = Inl (ValidationError [(''reader'', ReaderAlreadyReserved (name rd))])"
    by (simp add: Reservation_objects_create_def Reservation_save_def full_clean_def
        clean_fields_def l(5,6) collect_errors_def validate_constraints_def u)
  then show ?thesis by (simp add: CreateReservation_def l(1,2) assms(3,5))
qed

lemma Reservation_objects_create_ok:
  assumes "wf_db db" "bk \<in> set (books db)" "pk bk = Some b"
    "rd \<in> set (readers db)" "pk rd = Some r"
    and "\<not> list_ex (\<lambda>x. book x = Some b \<and> is_active x) (reservations db)"
    and "\<not> list_ex (\<lambda>x. reader x = Some r \<and> is_active x) (reservations db)"
  shows "Reservation_objects_create db now (Some b) (Some r) n =
           Inr (\<lparr>pk = Some (next_pk (reservations db)), book = Some b, reader = Some r,
                 reservation_date = Some now, is_active = True, cancelled_at = None,
                 notes = n\<rparr>,
                db\<lparr>reservations := reservations db @
                  [\<lparr>pk = Some (next_pk (reservations db)), book = Some b, reader = Some r,
                    reservation_date = Some now, is_active = True, cancelled_at = None,
                    notes = n\<rparr>]\<rparr>)"
proof -
  note l = lookups[OF assms(1-5)]
  let ?self = "\<lparr>pk = None, book = Some b, reader = Some r, reservation_date = None,
           is_active = True, cancelled_at = None, notes = n\<rparr>"
  have "Reservation_clean db ?self = Inr ()"
    by (simp add: Reservation_clean_def l(3,4) assms(6,7))
  moreover have u: "unique_active_reservation_per_book (reservations db) r'"
    if "book r' = Some b" for r'
    using assms(6) that by (auto simp: unique_active_reservation_per_book_def list_ex_iff)
  ultimately have fc: "full_clean db ?self = Inr ()"
    by (simp add: full_clean_def clean_fields_def l(5,6) collect_errors_def
        validate_constraints_def)
  have "Model_save db now ?self =
     Inr (?self\<lparr>pk := Some (next_pk (reservations db)), reservation_date := Some now\<rparr>,
          db\<lparr>reservations := reservations db @
             [?self\<lparr>pk := Some (next_pk (reservations db)), reservation_date := Some now\<rparr>]\<rparr>)"
    by (simp add: Model_save_def Let_def l(5,6) u)
  with fc show ?thesis
    by (simp add: Reservation_objects_create_def Reservation_save_def)
qed

lemma CreateReservation_ok:
  assumes "wf_db db" "bk \<in> set (books db)" "pk bk = Some b"
    "rd \<in> set (readers db)" "pk rd = Some r"
    and "\<not> list_ex (\<lambda>x. book x = Some b \<and> is_active x) (reservations db)"
    and "\<not> list_ex (\<lambda>x. reader x = Some r \<and> is_active x) (reservations db)"
  shows "CreateReservation db now b r n =
           (Inr \<lparr>pk = Some (next_pk (reservations db)), book = Some b, reader = Some r,
                 reservation_date = Some now, is_active = True, cancelled_at = None,
                 notes = n\<rparr>,
            db\<lparr>reservations := reservations db @
                  [\<lparr>pk = Some (next_pk (reservations db)), book = Some b, reader = Some r,
                    reservation_date = Some now, is_active = True, cancelled_at = None,
                    notes = n\<rparr>]\<rparr>)"
  using Reservation_objects_create_ok[OF assms, of now n] lookups(1,2)[OF assms(1-5)] assms(3,5)
  by (simp add: CreateReservation_def)

lemma wf_empty: "wf_db (library [])"
  by (simp add: wf_defs library_defs)

subsection \<open>The storage layer refuses a second active reservation of a book\<close>

lemma Model_save_refuses:
  assumes "is_active self" "x \<in> set (reservations db)" "is_active x" "book x = book self"
    and "pk self = None \<or> pk x \<noteq> pk self"
  shows "\<exists>e. Model_save db now self = Inl (IntegrityError e)"
proof -
  define rows where "rows = reservations db"
  define adding where "adding = (pk self = None \<or> \<not> list_ex (\<lambda>x. pk x = pk self) rows)"
  define keyed where "keyed = (if pk self = None then self\<lparr>pk := Some (next_pk rows)\<rparr> else self)"
  define r0 where "r0 = (if adding then keyed\<lparr>reservation_date := Some now\<rparr> else keyed)"
  define rows' where "rows' = (if adding then rows @ [r0]
                         else map (\<lambda>x. if pk x = pk r0 then r0 else x) rows)"
  have eq: "Model_save db now self =
     (if fk_errors ''book'' (books db) (book r0) \<noteq> []
            \<or> fk_errors ''reader'' (readers db) (reader r0) \<noteq> [] then
           Inl (IntegrityError ''foreign_key'')
         else if \<not> unique_active_reservation_per_book rows r0 then
           Inl (IntegrityError ''unique_active_reservation_per_book'')
         else Inr (r0, db\<lparr>reservations := rows'\<rparr>))"
    unfolding Model_save_def Let_def rows_def adding_def keyed_def r0_def rows'_def ..
  have r0: "is_active r0" "book r0 = book self" "pk r0 = pk keyed"
    using assms(1) by (simp_all add: r0_def keyed_def)
  have "pk x \<noteq> pk r0"
  proof (cases "pk self")
    case None
    then have "pk r0 = Some (next_pk rows)" by (simp add: r0(3) keyed_def)
    with next_pk_fresh[of x rows] assms(2) show ?thesis by (simp add: rows_def)
  next
    case (Some k)
    then have "pk r0 = pk self" by (simp add: r0(3) keyed_def)
    with assms(5) Some show ?thesis by simp
  qed
  with assms(2,3,4) r0(1,2) have "\<not> unique_active_reservation_per_book rows r0"
    by (auto simp: unique_active_reservation_per_book_def list_ex_iff rows_def)
  then show ?thesis unfolding eq by simp
qed

lemma reachable_two_of_Ann: "reachable (library [Res1, Res3])"
proof -
  have 1: "snd (CancelReservation (library [Res1]) 6 1) = library [cancelled 6 Res1]"
    by (simp add: query_defs save_defs engine_defs library_defs)
  have 2: "snd (CreateReservation (library [cancelled 6 Res1]) 7 2 1 [])
             = library [cancelled 6 Res1, Res3]"
    by (simp add: query_defs save_defs engine_defs library_defs)
  have 3: "snd (ReactivateReservation (library [cancelled 6 Res1, Res3]) 8 1)
             = library [Res1, Res3]"
    by (simp add: query_defs save_defs engine_defs library_defs)
  from reachable.cancel[OF reachable_Res1, of 6 1]
  have "reachable (library [cancelled 6 Res1])" unfolding 1 .
  from reachable.create[OF this, of 7 2 1 "[]"]
  have "reachable (library [cancelled 6 Res1, Res3])" unfolding 2 .
  from reachable.reactivate[OF this, of 8 1] show ?thesis unfolding 3 .
qed

subsection \<open>Saving a reader\<close>

lemma strip_lower_empty: "lower (strip []) = []"
  by (simp add: lower_def strip_def)

lemma Model_save_Reader_Inr:
  assumes "Model_save_Reader cl db now self = Inr (r, db')"
  shows "email r = email self" and "name r = name self"
    and "pk r \<noteq> None"
    and "(\<not> list_ex (\<lambda>x. pk x = pk r) (readers db) \<and> readers db' = readers db @ [r])
         \<or> (list_ex (\<lambda>x. pk x = pk r) (readers db)
             \<and> readers db' = map (\<lambda>x. if pk x = pk r then r else x) (readers db))"
proof -
  define rows where "rows = readers db"
  define adding where "adding = (pk self = None \<or> \<not> list_ex (\<lambda>x. pk x = pk self) rows)"
  define keyed where "keyed = (if pk self = None then self\<lparr>pk := Some (next_pk rows)\<rparr> else self)"
  define r0 where "r0 = (if adding then keyed\<lparr>created_at := Some now, updated_at := Some now\<rparr>
               else keyed\<lparr>updated_at := Some now\<rparr>)"
  define rows' where "rows' = (if adding then rows @ [r0]
                         else map (\<lambda>x. if pk x = pk r0 then r0 else x) rows)"
  have eq: "Model_save_Reader cl db now self =
     (if created_at r0 = None then Inl (IntegrityError ''created_at'')
      else if cl \<and> (length (name r0) > 100 \<or> length (email r0) > 254) then Inl DataError
      else if \<not> unique_email rows r0 then Inl (IntegrityError ''email'')
      else Inr (r0, db\<lparr>readers := rows'\<rparr>))"
    unfolding Model_save_Reader_def Let_def rows_def adding_def keyed_def r0_def rows'_def ..
  from assms have r: "r = r0" and db': "db' = db\<lparr>readers := rows'\<rparr>"
    unfolding eq by (simp_all split: if_splits)
  show "email r = email self" "name r = name self"
    by (simp_all add: r r0_def keyed_def)
  have pkr: "pk r0 = pk keyed" by (simp add: r0_def)
  show "pk r \<noteq> None"
    unfolding r pkr keyed_def by (cases "pk self") simp_all
  have fresh: "\<not> list_ex (\<lambda>x. pk x = pk r0) rows" if adding
  proof (cases "pk self")
    case None
    then have "pk r0 = Some (next_pk rows)" by (simp add: pkr keyed_def)
    then show ?thesis using next_pk_fresh[of _ rows] by (auto simp: list_ex_iff)
  next
    case (Some k)
    then have "pk r0 = pk self" by (simp add: pkr keyed_def)
    with that Some show ?thesis by (simp add: adding_def)
  qed
  have old: "list_ex (\<lambda>x. pk x = pk r0) rows" if "\<not> adding"
  proof -
    from that have "pk self \<noteq> None" "list_ex (\<lambda>x. pk x = pk self) rows"
      by (simp_all add: adding_def)
    moreover from this(1) have "pk r0 = pk self" by (simp add: pkr keyed_def)
    ultimately show ?thesis by simp
  qed
  show "(\<not> list_ex (\<lambda>x. pk x = pk r) (readers db) \<and> readers db' = readers db @ [r])
         \<or> (list_ex (\<lambda>x. pk x = pk r) (readers db)
             \<and> readers db' = map (\<lambda>x. if pk x = pk r then r else x) (readers db))"
  proof (cases adding)
    case True
    with fresh show ?thesis by (simp add: r db' rows'_def rows_def)
  next
    case False
    with old show ?thesis by (simp add: r db' rows'_def rows_def)
  qed
qed

lemma Model_save_Reader_stored:
  assumes "Model_save_Reader cl db now self = Inr (r, db')" "pk_ok (readers db)"
  shows "\<exists>k. pk r = Some k \<and> get_object_or_404 (readers db') k = Inr r"
proof -
  note s = Model_save_Reader_Inr[OF assms(1)]
  from s(3) obtain k where k: "pk r = Some k" by blast
  have "r \<in> set (readers db') \<and> pk_ok (readers db')"
    using s(4)
  proof
    assume a: "\<not> list_ex (\<lambda>x. pk x = pk r) (readers db) \<and> readers db' = readers db @ [r]"
    then show ?thesis using pk_ok_append[OF assms(2) s(3)] by simp
  next
    assume a: "list_ex (\<lambda>x. pk x = pk r) (readers db)
             \<and> readers db' = map (\<lambda>x. if pk x = pk r then r else x) (readers db)"
    then obtain x where x: "x \<in> set (readers db)" "pk x = pk r" by (auto simp: list_ex_iff)
    have "r = (\<lambda>x. if pk x = pk r then r else x) x" using x(2) by simp
    then have "r \<in> (\<lambda>x. if pk x = pk r then r else x) ` set (readers db)"
      using x(1) by (rule image_eqI)
    then show ?thesis using a pk_ok_update[OF assms(2), of r] by simp
  qed
  then have "r \<in> set (readers db')" "distinct (map pk (readers db'))"
    by (simp_all add: pk_ok_def)
  from get_object_or_404_found[OF this(2,1) k] k show ?thesis by blast
qed

lemma Model_save_Reader_accepts:
  assumes "\<not> list_ex (\<lambda>x. (pk self = None \<or> pk x \<noteq> pk self) \<and> email x = email self) (readers db)"
    and "pk self = None \<or> \<not> list_ex (\<lambda>x. pk x = pk self) (readers db) \<or> created_at self \<noteq> None"
    and "length (name self) \<le> 100 \<and> length (email self) \<le> 254"
  shows "\<exists>r db'. Model_save_Reader cl db now self = Inr (r, db')"
proof -
  define rows where "rows = readers db"
  define adding where "adding = (pk self = None \<or> \<not> list_ex (\<lambda>x. pk x = pk self) rows)"
  define keyed where "keyed = (if pk self = None then self\<lparr>pk := Some (next_pk rows)\<rparr> else self)"
  define r0 where "r0 = (if adding then keyed\<lparr>created_at := Some now, updated_at := Some now\<rparr>
               else keyed\<lparr>updated_at := Some now\<rparr>)"
  define rows' where "rows' = (if adding then rows @ [r0]
                         else map (\<lambda>x. if pk x = pk r0 then r0 else x) rows)"
  have eq: "Model_save_Reader cl db now self =
     (if created_at r0 = None then Inl (IntegrityError ''created_at'')
      else if cl \<and> (length (name r0) > 100 \<or> length (email r0) > 254) then Inl DataError
      else if \<not> unique_email rows r0 then Inl (IntegrityError ''email'')
      else Inr (r0, db\<lparr>readers := rows'\<rparr>))"
    unfolding Model_save_Reader_def Let_def rows_def adding_def keyed_def r0_def rows'_def ..
  have e: "email r0 = email self" "name r0 = name self" by (simp_all add: r0_def keyed_def)
  have l: "\<not> (cl \<and> (length (name r0) > 100 \<or> length (email r0) > 254))"
    using assms(3) unfolding e by simp
  have c: "created_at r0 \<noteq> None"
  proof (cases adding)
    case True
    then show ?thesis by (simp add: r0_def)
  next
    case False
    then have "pk self \<noteq> None" "list_ex (\<lambda>x. pk x = pk self) (readers db)"
      by (simp_all add: adding_def rows_def)
    with assms(2) have "created_at self \<noteq> None" by blast
    with False \<open>pk self \<noteq> None\<close> show ?thesis by (simp add: r0_def keyed_def)
  qed
  have "pk x = pk r0" if "x \<in> set rows" "email x = email self" for x
  proof -
    from assms(1) that have "pk self \<noteq> None" "pk x = pk self"
      by (auto simp: list_ex_iff rows_def)
    then show ?thesis by (simp add: r0_def keyed_def)
  qed
  then have "unique_email rows r0"
    unfolding unique_email_def list_ex_iff e by blast
  with c l show ?thesis unfolding eq by simp
qed

lemma normalize_example: "lower (strip ''  MixedCase@Email.COM '') = ''mixedcase@email.com''"
  by (simp add: lower_def strip_def isspace_def lower_char_def char_of_def bit_0)

subsection \<open>The quick-reservation path\<close>

lemma quick_reserve_answers_error:
  assumes "list_ex (\<lambda>x. reader x = Some r \<and> is_active x) (reservations db)"
  shows "status (fst (quick_reserve db now m (Body (Some r)) b)) = ''error''
       \<and> snd (quick_reserve db now m (Body (Some r)) b) = db"
proof (cases "m = ''POST''")
  case False
  then show ?thesis by (simp add: quick_reserve_def)
next
  case post: True
  show ?thesis
  proof (cases "get_object_or_404 (books db) b")
    case (Inl e)
    with post show ?thesis by (simp add: quick_reserve_def)
  next
    case bk: (Inr bk)
    show ?thesis
    proof (cases "get_object_or_404 (readers db) r")
      case (Inl e)
      with post bk show ?thesis by (simp add: quick_reserve_def)
    next
      case rd: (Inr rd)
      from get_object_or_404_mem[OF rd] have "pk rd = Some r" by simp
      with assms have "get_active_reservations db rd \<noteq> []"
        by (auto simp: get_active_reservations_def filter_empty_conv list_ex_iff)
      with post bk rd show ?thesis by (simp add: quick_reserve_def)
    qed
  qed
qed

lemma related_fails_fk_errors:
  assumes "distinct (map pk rows)" "related rows fk = Inl e"
  shows "fk_errors f rows fk \<noteq> []"
proof (cases fk)
  case None
  then show ?thesis by (simp add: fk_errors_def)
next
  case (Some k)
  have "\<not> list_ex (\<lambda>x. pk x = Some k) rows"
  proof
    assume "list_ex (\<lambda>x. pk x = Some k) rows"
    then obtain x where "x \<in> set rows" "pk x = Some k" by (rule lookup_exists)
    from related_found[OF assms(1) this] assms(2) Some show False by simp
  qed
  with Some show ?thesis by (simp add: fk_errors_def)
qed

lemma collect_errors_fails: "errors \<noteq> [] \<Longrightarrow> \<exists>e. collect_errors db self errors = Inl e"
  by (simp add: collect_errors_def)

lemma objects_get_error:
  "objects_get P rows = Inl e \<Longrightarrow> e = DoesNotExist \<or> e = MultipleObjectsReturned"
  by (auto simp: objects_get_def split: list.splits)

lemma related_error:
  "related rows fk = Inl e \<Longrightarrow> e = DoesNotExist \<or> e = MultipleObjectsReturned"
  by (cases fk) (auto simp: related_def dest: objects_get_error)

lemma Reservation_clean_error:
  assumes "Reservation_clean db self = Inl (ValidationError es)"
  shows "es \<noteq> []"
proof
  assume "es = []"
  with assms have a: "Reservation_clean db self = Inl (ValidationError [])" by simp
  have n: "ValidationError [] \<noteq> DoesNotExist" "ValidationError [] \<noteq> MultipleObjectsReturned"
    by simp_all
  from a show False
    by (auto simp: Reservation_clean_def split: if_splits option.splits sum.splits
        dest!: objects_get_error related_error)
qed

lemma full_clean_fails:
  assumes "Reservation_clean db self = Inl e"
  shows "\<exists>e'. full_clean db self = Inl e'"
proof (cases e)
  case (ValidationError es)
  with assms have "es \<noteq> []" by (simp add: Reservation_clean_error)
  then have "\<exists>e'. collect_errors db self (clean_fields db self @ es) = Inl e'"
    by (simp add: collect_errors_def)
  with assms ValidationError show ?thesis by (simp add: full_clean_def)
qed (use assms in \<open>simp_all add: full_clean_def\<close>)

lemma Reservation_objects_create_rejects:
  assumes "wf_db db" "list_ex (\<lambda>x. reader x = Some r \<and> is_active x) (reservations db)"
  shows "\<exists>e. Reservation_objects_create db now bo (Some r) n = Inl e"
proof -
  let ?self = "\<lparr>pk = None, book = bo, reader = Some r, reservation_date = None,
           is_active = True, cancelled_at = None, notes = n\<rparr>"
  have "\<exists>e. full_clean db ?self = Inl e"
  proof (cases "Reservation_clean db ?self")
    case (Inl e)
    then show ?thesis by (rule full_clean_fails)
  next
    case (Inr u)
    have "bo = None"
    proof (rule ccontr)
      assume "bo \<noteq> None"
      then obtain k where k: "bo = Some k" by blast
      have "Reservation_clean db ?self \<noteq> Inr ()"
        using assms(2) by (simp add: Reservation_clean_def k split: sum.splits)
      with Inr show False by simp
    qed
    then have "clean_fields db ?self \<noteq> []" by (simp add: clean_fields_def fk_errors_def)
    from collect_errors_fails[OF this, of db ?self] Inr show ?thesis
      by (simp add: full_clean_def)
  qed
  then show ?thesis by (auto simp: Reservation_objects_create_def Reservation_save_def)
qed

lemma quick_reserve_answers_success:
  assumes "wf_db db" "bk \<in> set (books db)" "pk bk = Some b"
    "rd \<in> set (readers db)" "pk rd = Some r"
    and "\<not> list_ex (\<lambda>x. book x = Some b \<and> is_active x) (reservations db)"
    and "\<not> list_ex (\<lambda>x. reader x = Some r \<and> is_active x) (reservations db)"
  shows "quick_reserve db now ''POST'' (Body (Some r)) b =
           (\<lparr>status = ''success'', message = ReservedFor (name rd),
             reservation_id = Some (next_pk (reservations db))\<rparr>,
            db\<lparr>reservations := reservations db @
                  [\<lparr>pk = Some (next_pk (reservations db)), book = Some b, reader = Some r,
                    reservation_date = Some now, is_active = True, cancelled_at = None,
                    notes = []\<rparr>]\<rparr>)"
proof -
  note l = lookups[OF assms(1-5)]
  have av: "is_available db bk" using assms(3,6) by (simp add: is_available_def)
  have none: "get_active_reservations db rd = []"
    using assms(5,7) by (auto simp: get_active_reservations_def filter_empty_conv list_ex_iff)
  from Reservation_objects_create_ok[OF assms, of now "[]"] l(1,2) av none assms(3,5)
  show ?thesis by (simp add: quick_reserve_def)
qed

section \<open>The claims\<close>

text \<open>
  C1 (invariant I1): in every state the engine reaches through CreateReservation,
  CancelReservation and ReactivateReservation, every book has at most one active
  reservation.
\<close>

theorem I1_at_most_one_active_reservation_per_book:
  "reachable db \<Longrightarrow> active_count_of_book db b \<le> 1"
  using reachable_constraints[of db] constraints_count[of db b] by blast

theorem I1_at_most_one_active_reservation_per_book_witness:
  "reachable (library [Res1]) \<and> active_count_of_book (library [Res1]) 1 \<le> 1"
  using I1_at_most_one_active_reservation_per_book[OF reachable_Res1, of 1] reachable_Res1
  by simp

text \<open>
  C2: CreateReservation checks, in this order and stopping at the first failure: the
  book and the reader exist (\<open>Http404\<close>); the book has no active reservation (the
  ValidationError on \<open>book\<close>, with the title of the book and the name of the reader of
  the active reservation); the reader has no active reservation (the ValidationError on
  \<open>reader\<close>). The second case holds whether or not the reader has an active reservation
  too. When no check fails the reservation is inserted, active.
\<close>

theorem CreateReservation_check_order:
  assumes "wf_db db"
  shows "(\<not> list_ex (\<lambda>x. pk x = Some b) (books db) \<or> \<not> list_ex (\<lambda>x. pk x = Some r) (readers db)
            \<longrightarrow> CreateReservation db now b r n = (Inl Http404, db))
       \<and> (\<forall>bk\<in>set (books db). \<forall>rd\<in>set (readers db).
           \<forall>x\<in>set (reservations db). \<forall>er\<in>set (readers db).
             pk bk = Some b \<and> pk rd = Some r \<and> book x = Some b \<and> is_active x \<and> pk er = reader x
             \<longrightarrow> CreateReservation db now b r n =
                   (Inl (ValidationError [(''book'', BookAlreadyReserved (title bk) (name er))]),
                    db))
       \<and> (\<forall>bk\<in>set (books db). \<forall>rd\<in>set (readers db).
             pk bk = Some b \<and> pk rd = Some r
             \<and> \<not> list_ex (\<lambda>x. book x = Some b \<and> is_active x) (reservations db)
             \<and> list_ex (\<lambda>x. reader x = Some r \<and> is_active x) (reservations db)
             \<longrightarrow> CreateReservation db now b r n =
                   (Inl (ValidationError [(''reader'', ReaderAlreadyReserved (name rd))]), db))
       \<and> (\<forall>bk\<in>set (books db). \<forall>rd\<in>set (readers db).
             pk bk = Some b \<and> pk rd = Some r
             \<and> \<not> list_ex (\<lambda>x. book x = Some b \<and> is_active x) (reservations db)
             \<and> \<not> list_ex (\<lambda>x. reader x = Some r \<and> is_active x) (reservations db)
             \<longrightarrow> (\<exists>res. CreateReservation db now b r n
                           = (Inr res, db\<lparr>reservations := reservations db @ [res]\<rparr>)
                        \<and> book res = Some b \<and> reader res = Some r \<and> is_active res
                        \<and> reservation_date res = Some now \<and> cancelled_at res = None
                        \<and> notes res = n))"
proof (intro conjI ballI impI)
  assume "\<not> list_ex (\<lambda>x. pk x = Some b) (books db) \<or> \<not> list_ex (\<lambda>x. pk x = Some r) (readers db)"
  then show "CreateReservation db now b r n = (Inl Http404, db)"
    using CreateReservation_no_book[of b db now r n]
      CreateReservation_no_reader[OF assms, of r now b n] by blast
next
  fix bk rd x er
  assume "bk \<in> set (books db)" "rd \<in> set (readers db)" "x \<in> set (reservations db)"
    "er \<in> set (readers db)"
    "pk bk = Some b \<and> pk rd = Some r \<and> book x = Some b \<and> is_active x \<and> pk er = reader x"
  then show "CreateReservation db now b r n =
      (Inl (ValidationError [(''book'', BookAlreadyReserved (title bk) (name er))]), db)"
    by (intro CreateReservation_book_reserved[OF assms, of bk b rd r x er]) simp_all
next
  fix bk rd
  assume "bk \<in> set (books db)" "rd \<in> set (readers db)"
    "pk bk = Some b \<and> pk rd = Some r
      \<and> \<not> list_ex (\<lambda>x. book x = Some b \<and> is_active x) (reservations db)
      \<and> list_ex (\<lambda>x. reader x = Some r \<and> is_active x) (reservations db)"
  then show "CreateReservation db now b r n =
      (Inl (ValidationError [(''reader'', ReaderAlreadyReserved (name rd))]), db)"
    by (intro CreateReservation_reader_reserved[OF assms, of bk b rd r]) simp_all
next
  fix bk rd
  assume a: "bk \<in> set (books db)" "rd \<in> set (readers db)"
    "pk bk = Some b \<and> pk rd = Some r
      \<and> \<not> list_ex (\<lambda>x. book x = Some b \<and> is_active x) (reservations db)
      \<and> \<not> list_ex (\<lambda>x. reader x = Some r \<and> is_active x) (reservations db)"
  have "CreateReservation db now b r n =
           (Inr \<lparr>pk = Some (next_pk (reservations db)), book = Some b, reader = Some r,
                 reservation_date = Some now, is_active = True, cancelled_at = None,
                 notes = n\<rparr>,
            db\<lparr>reservations := reservations db @
                  [\<lparr>pk = Some (next_pk (reservations db)), book = Some b, reader = Some r,
                    reservation_date = Some now, is_active = True, cancelled_at = None,
                    notes = n\<rparr>]\<rparr>)"
    using a by (intro CreateReservation_ok[OF assms, of bk b rd r]) simp_all
  then show "\<exists>res. CreateReservation db now b r n
                           = (Inr res, db\<lparr>reservations := reservations db @ [res]\<rparr>)
                        \<and> book res = Some b \<and> reader res = Some r \<and> is_active res
                        \<and> reservation_date res = Some now \<and> cancelled_at res = None
                        \<and> notes res = n"
    by simp
qed

theorem CreateReservation_check_order_witness:
  "wf_db (library []) \<and> wf_db (library [Res1])
   \<and> CreateReservation (library []) 5 1 1 ''first'' = (Inr Res1, library [Res1])
   \<and> CreateReservation (library [Res1]) 7 1 2 [] =
       (Inl (ValidationError [(''book'', BookAlreadyReserved ''Dune'' ''Ann'')]), library [Res1])
   \<and> CreateReservation (library [Res1]) 7 2 1 [] =
       (Inl (ValidationError [(''reader'', ReaderAlreadyReserved ''Ann'')]), library [Res1])
   \<and> CreateReservation (library [Res1]) 7 1 1 [] =
       (Inl (ValidationError [(''book'', BookAlreadyReserved ''Dune'' ''Ann'')]), library [Res1])
   \<and> CreateReservation (library [Res1]) 7 3 1 [] = (Inl Http404, library [Res1])"
proof -
  have m: "Dune \<in> set (books (library [Res1]))" "Emma \<in> set (books (library [Res1]))"
    "Ann \<in> set (readers (library [Res1]))" "Bob \<in> set (readers (library [Res1]))"
    "Res1 \<in> set (reservations (library [Res1]))"
    by (simp_all add: library_def)
  have f: "pk Dune = Some 1" "pk Emma = Some 2" "pk Ann = Some 1" "pk Bob = Some 2"
    "book Res1 = Some 1" "is_active Res1" "pk Ann = reader Res1"
    "title Dune = ''Dune''" "name Ann = ''Ann''"
    by (simp_all add: library_defs)
  have c: "\<not> list_ex (\<lambda>x. book x = Some 2 \<and> is_active x) (reservations (library [Res1]))"
    "list_ex (\<lambda>x. reader x = Some 1 \<and> is_active x) (reservations (library [Res1]))"
    "\<not> list_ex (\<lambda>x. pk x = Some 3) (books (library [Res1]))"
    by (simp_all add: library_defs)
  note t = CreateReservation_check_order[OF wf_Res1]
  have "CreateReservation (library [Res1]) 7 1 2 [] =
       (Inl (ValidationError [(''book'', BookAlreadyReserved (title Dune) (name Ann))]),
        library [Res1])"
    using t[of 1 2 7 "[]"] m f by blast
  moreover have "CreateReservation (library [Res1]) 7 2 1 [] =
       (Inl (ValidationError [(''reader'', ReaderAlreadyReserved (name Ann))]), library [Res1])"
    using t[of 2 1 7 "[]"] m f c by blast
  moreover have "CreateReservation (library [Res1]) 7 1 1 [] =
       (Inl (ValidationError [(''book'', BookAlreadyReserved (title Dune) (name Ann))]),
        library [Res1])"
    using t[of 1 1 7 "[]"] m f by blast
  moreover have "CreateReservation (library [Res1]) 7 3 1 [] = (Inl Http404, library [Res1])"
    using t[of 3 1 7 "[]"] c by blast
  ultimately show ?thesis using wf_empty wf_Res1 create_Res1 f(8,9) by simp
qed

text \<open>
  C3: the claim is that ReactivateReservation on an existing reservation that is already
  active returns false and changes nothing. The code does not: \<open>is_available\<close> counts
  the reservation itself, so for every active reservation of a well-formed database
  \<open>reactivate\<close> raises the ValidationError of its second branch, and its \<open>return False\<close>
  is never reached.
\<close>

theorem ReactivateReservation_active_raises:
  assumes "wf_db db" "x \<in> set (reservations db)" "pk x = Some k" "is_active x"
  shows "ReactivateReservation db now k =
           (Inl (ValidationError [(''__all__'', ReservedBySomeoneElse)]), db)"
  using assms(4) by (intro ReactivateReservation_reserved[OF assms(1,2,3) assms(2)]) simp_all

theorem ReactivateReservation_active_raises_witness:
  "wf_db (library [Res1]) \<and> get_object_or_404 (reservations (library [Res1])) 1 = Inr Res1
   \<and> is_active Res1
   \<and> ReactivateReservation (library [Res1]) 6 1 =
        (Inl (ValidationError [(''__all__'', ReservedBySomeoneElse)]), library [Res1])
   \<and> fst (ReactivateReservation (library [Res1]) 6 1) \<noteq> Inr False"
proof -
  have a: "Res1 \<in> set (reservations (library [Res1]))" "pk Res1 = Some 1" "is_active Res1"
    by (simp_all add: library_defs)
  have "get_object_or_404 (reservations (library [Res1])) 1 = Inr Res1"
    by (simp add: query_defs library_defs)
  with ReactivateReservation_active_raises[OF wf_Res1 a, of 6] wf_Res1 a(3)
  show ?thesis by simp
qed

text \<open>
  C4: CancelReservation on an existing reservation returns false and changes nothing when
  the reservation is inactive; when it is active it returns true and the stored row has
  \<open>is_active = False\<close> and \<open>cancelled_at = now\<close>. It fails only with \<open>Http404\<close>, and
  only when no reservation has the key.
\<close>

theorem CancelReservation_outcomes:
  assumes "wf_db db"
  shows "(\<forall>x\<in>set (reservations db). pk x = Some k \<and> \<not> is_active x \<longrightarrow>
            CancelReservation db now k = (Inr False, db))
       \<and> (\<forall>x\<in>set (reservations db). pk x = Some k \<and> is_active x \<longrightarrow>
            (\<exists>db'. CancelReservation db now k = (Inr True, db')
                 \<and> get_object_or_404 (reservations db') k
                     = Inr (x\<lparr>is_active := False, cancelled_at := Some now\<rparr>)))
       \<and> (\<forall>e. fst (CancelReservation db now k) = Inl e \<longrightarrow>
            e = Http404 \<and> \<not> list_ex (\<lambda>x. pk x = Some k) (reservations db))
       \<and> (\<not> list_ex (\<lambda>x. pk x = Some k) (reservations db) \<longrightarrow>
            CancelReservation db now k = (Inl Http404, db))"
proof (intro conjI ballI allI impI)
  fix x assume "x \<in> set (reservations db)" "pk x = Some k \<and> \<not> is_active x"
  then show "CancelReservation db now k = (Inr False, db)"
    using CancelReservation_inactive[OF assms] by blast
next
  fix x assume x: "x \<in> set (reservations db)" "pk x = Some k \<and> is_active x"
  let ?self = "x\<lparr>is_active := False, cancelled_at := Some now\<rparr>"
  have "get_object_or_404 (map (\<lambda>y. if pk y = pk ?self then ?self else y) (reservations db)) k
          = Inr ?self"
    by (rule get_after_update[OF wf_dbD(8)[OF assms] x(1)]) (use x(2) in simp_all)
  with CancelReservation_active[OF assms x(1), of k now] x(2)
  show "\<exists>db'. CancelReservation db now k = (Inr True, db')
                 \<and> get_object_or_404 (reservations db') k = Inr ?self"
    by simp
next
  fix e assume e: "fst (CancelReservation db now k) = Inl e"
  have no: "\<not> list_ex (\<lambda>x. pk x = Some k) (reservations db)"
  proof
    assume "list_ex (\<lambda>x. pk x = Some k) (reservations db)"
    then obtain x where x: "x \<in> set (reservations db)" "pk x = Some k" by (rule lookup_exists)
    show False
    proof (cases "is_active x")
      case True
      from CancelReservation_active[OF assms x True, of now] e show False by simp
    next
      case False
      from CancelReservation_inactive[OF assms x False, of now] e show False by simp
    qed
  qed
  with CancelReservation_missing[OF no, of now] e
  show "e = Http404" and "\<not> list_ex (\<lambda>x. pk x = Some k) (reservations db)" by simp_all
next
  assume "\<not> list_ex (\<lambda>x. pk x = Some k) (reservations db)"
  then show "CancelReservation db now k = (Inl Http404, db)"
    by (rule CancelReservation_missing)
qed

theorem CancelReservation_outcomes_witness:
  "wf_db (library [Res1]) \<and> wf_db (library [cancelled 6 Res1])
   \<and> CancelReservation (library [Res1]) 6 1 = (Inr True, library [cancelled 6 Res1])
   \<and> get_object_or_404 (reservations (library [cancelled 6 Res1])) 1
       = Inr (Res1\<lparr>is_active := False, cancelled_at := Some 6\<rparr>)
   \<and> CancelReservation (library [cancelled 6 Res1]) 8 1 = (Inr False, library [cancelled 6 Res1])
   \<and> CancelReservation (library [Res1]) 6 2 = (Inl Http404, library [Res1])"
proof -
  have a: "Res1 \<in> set (reservations (library [Res1]))" "pk Res1 = Some 1" "is_active Res1"
    by (simp_all add: library_defs)
  have b: "cancelled 6 Res1 \<in> set (reservations (library [cancelled 6 Res1]))"
    "pk (cancelled 6 Res1) = Some 1" "\<not> is_active (cancelled 6 Res1)"
    by (simp_all add: library_defs)
  have c: "\<not> list_ex (\<lambda>x. pk x = Some 2) (reservations (library [Res1]))"
    by (simp add: library_defs)
  have d: "CancelReservation (library [Res1]) 6 1 = (Inr True, library [cancelled 6 Res1])"
    by (simp add: query_defs save_defs engine_defs library_defs)
  from CancelReservation_outcomes[OF wf_Res1, of 1 6] a d
  have "get_object_or_404 (reservations (library [cancelled 6 Res1])) 1
       = Inr (Res1\<lparr>is_active := False, cancelled_at := Some 6\<rparr>)"
    by auto
  moreover from CancelReservation_outcomes[OF wf_cancelled_Res1, of 1 8] b
  have "CancelReservation (library [cancelled 6 Res1]) 8 1 = (Inr False, library [cancelled 6 Res1])"
    by blast
  moreover from CancelReservation_outcomes[OF wf_Res1, of 2 6] c
  have "CancelReservation (library [Res1]) 6 2 = (Inl Http404, library [Res1])"
    by blast
  ultimately show ?thesis using wf_Res1 wf_cancelled_Res1 d by simp
qed

text \<open>
  C5 (round trip): cancelling an active reservation and then reactivating it, nothing
  else happening in between, succeeds twice and leaves the reservation active with
  \<open>cancelled_at = None\<close>.
\<close>

theorem cancel_then_reactivate_round_trip:
  assumes "wf_db db" "x \<in> set (reservations db)" "pk x = Some k" "is_active x"
  shows "\<exists>db1 db2. CancelReservation db t1 k = (Inr True, db1)
           \<and> ReactivateReservation db1 t2 k = (Inr True, db2)
           \<and> get_object_or_404 (reservations db2) k
               = Inr (x\<lparr>is_active := True, cancelled_at := None\<rparr>)"
proof -
  let ?c = "x\<lparr>is_active := False, cancelled_at := Some t1\<rparr>"
  let ?rows1 = "map (\<lambda>y. if pk y = Some k then ?c else y) (reservations db)"
  let ?db1 = "db\<lparr>reservations := ?rows1\<rparr>"
  let ?r = "x\<lparr>is_active := True, cancelled_at := None\<rparr>"
  let ?rows2 = "map (\<lambda>y. if pk y = Some k then ?r else y) ?rows1"
  note wf = wf_dbD[OF assms(1)]
  have cancel: "CancelReservation db t1 k = (Inr True, ?db1)"
    by (rule CancelReservation_active[OF assms])
  have "Reservation_save db t1 ?c =
          Inr (?c, db\<lparr>reservations :=
                 map (\<lambda>y. if pk y = pk ?c then ?c else y) (reservations db)\<rparr>)"
    by (rule Reservation_save_update[OF assms(1,2)]) (simp_all add: inactive_unique)
  then have "Model_save db t1 ?c = Inr (?c, ?db1)"
    using assms(3) by (simp add: Reservation_save_Inr)
  then have wf1: "wf_db ?db1" using assms(1) by (rule Model_save_wf)
  have c_in: "?c \<in> set (reservations ?db1)"
  proof -
    have "?c = (\<lambda>y. if pk y = Some k then ?c else y) x" using assms(3) by simp
    then have "?c \<in> (\<lambda>y. if pk y = Some k then ?c else y) ` set (reservations db)"
      using assms(2) by (rule image_eqI)
    then show ?thesis by simp
  qed
  have free: "\<not> list_ex (\<lambda>y. book y = book ?c \<and> is_active y) (reservations ?db1)"
  proof
    assume "list_ex (\<lambda>y. book y = book ?c \<and> is_active y) (reservations ?db1)"
    then obtain y where y: "y \<in> set ?rows1" "book y = book x" "is_active y"
      by (auto simp: list_ex_iff)
    from y(1) obtain w where w: "w \<in> set (reservations db)"
      "y = (if pk w = Some k then ?c else w)" by (auto simp: image_iff)
    show False
    proof (cases "pk w = Some k")
      case True
      with w(2) y(3) show False by simp
    next
      case False
      with w(2) have "y = w" by simp
      with y w(1) have "pk w = pk x"
        by (intro one_active_per_bookD[OF wf(4) w(1) assms(2)]) (simp_all add: assms(4))
      with False assms(3) show False by simp
    qed
  qed
  have "ReactivateReservation ?db1 t2 k =
          (Inr True, ?db1\<lparr>reservations :=
             map (\<lambda>y. if pk y = Some k then ?c\<lparr>is_active := True, cancelled_at := None\<rparr> else y)
               (reservations ?db1)\<rparr>)"
    by (rule ReactivateReservation_free[OF wf1 c_in _ _ free]) (simp_all add: assms(3))
  then have react: "ReactivateReservation ?db1 t2 k = (Inr True, ?db1\<lparr>reservations := ?rows2\<rparr>)"
    by simp
  have "get_object_or_404 (map (\<lambda>y. if pk y = pk ?r then ?r else y) ?rows1) k = Inr ?r"
  proof (rule get_after_update)
    show "distinct (map pk ?rows1)" using wf_dbD(8)[OF wf1] by simp
    show "?c \<in> set ?rows1" using c_in by simp
    show "pk ?r = pk ?c" by simp
    show "pk ?c = Some k" using assms(3) by simp
  qed
  then have "get_object_or_404 (reservations (?db1\<lparr>reservations := ?rows2\<rparr>)) k = Inr ?r"
    using assms(3) by simp
  with cancel react show ?thesis by blast
qed

theorem cancel_then_reactivate_round_trip_witness:
  "wf_db (library [Res1]) \<and> get_object_or_404 (reservations (library [Res1])) 1 = Inr Res1
   \<and> is_active Res1
   \<and> CancelReservation (library [Res1]) 6 1 = (Inr True, library [cancelled 6 Res1])
   \<and> ReactivateReservation (library [cancelled 6 Res1]) 8 1 = (Inr True, library [Res1])
   \<and> (\<exists>db1 db2. CancelReservation (library [Res1]) 6 1 = (Inr True, db1)
           \<and> ReactivateReservation db1 8 1 = (Inr True, db2)
           \<and> get_object_or_404 (reservations db2) 1
               = Inr (Res1\<lparr>is_active := True, cancelled_at := None\<rparr>))"
proof -
  have a: "Res1 \<in> set (reservations (library [Res1]))" "pk Res1 = Some 1" "is_active Res1"
    by (simp_all add: library_defs)
  have b: "get_object_or_404 (reservations (library [Res1])) 1 = Inr Res1"
    by (simp add: query_defs library_defs)
  have c: "CancelReservation (library [Res1]) 6 1 = (Inr True, library [cancelled 6 Res1])"
    by (simp add: query_defs save_defs engine_defs library_defs)
  have d: "ReactivateReservation (library [cancelled 6 Res1]) 8 1 = (Inr True, library [Res1])"
    by (simp add: query_defs save_defs engine_defs library_defs)
  from cancel_then_reactivate_round_trip[OF wf_Res1 a, of 6 8] wf_Res1 a(3) b c d
  show ?thesis by blast
qed

text \<open>
  C6: for an inactive reservation, ReactivateReservation raises the ValidationError
  "already reserved by someone else" and changes nothing when another reservation of
  the same book is active; when no reservation of the book is active it returns true and
  the stored row has \<open>is_active = True\<close> and \<open>cancelled_at = None\<close>.
\<close>

theorem ReactivateReservation_outcomes:
  assumes "wf_db db" "x \<in> set (reservations db)" "pk x = Some k" "\<not> is_active x"
  shows "((\<exists>y\<in>set (reservations db). y \<noteq> x \<and> book y = book x \<and> is_active y) \<longrightarrow>
            ReactivateReservation db now k =
              (Inl (ValidationError [(''__all__'', ReservedBySomeoneElse)]), db))
       \<and> (\<not> list_ex (\<lambda>y. book y = book x \<and> is_active y) (reservations db) \<longrightarrow>
            (\<exists>db'. ReactivateReservation db now k = (Inr True, db')
                 \<and> get_object_or_404 (reservations db') k
                     = Inr (x\<lparr>is_active := True, cancelled_at := None\<rparr>)))"
proof (intro conjI impI)
  assume "\<exists>y\<in>set (reservations db). y \<noteq> x \<and> book y = book x \<and> is_active y"
  then obtain y where "y \<in> set (reservations db)" "book y = book x" "is_active y" by blast
  then show "ReactivateReservation db now k =
              (Inl (ValidationError [(''__all__'', ReservedBySomeoneElse)]), db)"
    by (rule ReactivateReservation_reserved[OF assms(1,2,3)])
next
  assume free: "\<not> list_ex (\<lambda>y. book y = book x \<and> is_active y) (reservations db)"
  let ?self = "x\<lparr>is_active := True, cancelled_at := None\<rparr>"
  have "get_object_or_404 (map (\<lambda>y. if pk y = pk ?self then ?self else y) (reservations db)) k
          = Inr ?self"
    by (rule get_after_update[OF wf_dbD(8)[OF assms(1)] assms(2)]) (use assms(3) in simp_all)
  with ReactivateReservation_free[OF assms free, of now] assms(3)
  show "\<exists>db'. ReactivateReservation db now k = (Inr True, db')
                 \<and> get_object_or_404 (reservations db') k = Inr ?self"
    by simp
qed

theorem ReactivateReservation_outcomes_witness:
  "wf_db (library [cancelled 6 Res1, Res2]) \<and> wf_db (library [cancelled 6 Res1])
   \<and> ReactivateReservation (library [cancelled 6 Res1, Res2]) 8 1 =
        (Inl (ValidationError [(''__all__'', ReservedBySomeoneElse)]),
         library [cancelled 6 Res1, Res2])
   \<and> (\<exists>db'. ReactivateReservation (library [cancelled 6 Res1]) 8 1 = (Inr True, db')
          \<and> get_object_or_404 (reservations db') 1 = Inr Res1)"
proof -
  have a: "cancelled 6 Res1 \<in> set (reservations (library [cancelled 6 Res1, Res2]))"
    "pk (cancelled 6 Res1) = Some 1" "\<not> is_active (cancelled 6 Res1)"
    "\<exists>y\<in>set (reservations (library [cancelled 6 Res1, Res2])).
        y \<noteq> cancelled 6 Res1 \<and> book y = book (cancelled 6 Res1) \<and> is_active y"
    by (simp_all add: library_defs)
  have b: "cancelled 6 Res1 \<in> set (reservations (library [cancelled 6 Res1]))"
    "\<not> list_ex (\<lambda>y. book y = book (cancelled 6 Res1) \<and> is_active y)
         (reservations (library [cancelled 6 Res1]))"
    "(cancelled 6 Res1)\<lparr>is_active := True, cancelled_at := None\<rparr> = Res1"
    by (simp_all add: library_defs)
  from ReactivateReservation_outcomes[OF wf_cancelled_Res1_Res2 a(1,2,3), of 8] a(4)
  have "ReactivateReservation (library [cancelled 6 Res1, Res2]) 8 1 =
        (Inl (ValidationError [(''__all__'', ReservedBySomeoneElse)]),
         library [cancelled 6 Res1, Res2])"
    by blast
  moreover from ReactivateReservation_outcomes[OF wf_cancelled_Res1 b(1) a(2,3), of 8] b(2)
  have "\<exists>db'. ReactivateReservation (library [cancelled 6 Res1]) 8 1 = (Inr True, db')
          \<and> get_object_or_404 (reservations db') 1 = Inr Res1"
    unfolding b(3) by blast
  ultimately show ?thesis using wf_cancelled_Res1_Res2 wf_cancelled_Res1 by blast
qed

text \<open>
  C7, as amended: the quick-reservation path rejects a request whenever the reader
  already has one active reservation or more. \<open>quick_reserve\<close> answers with an error and
  writes nothing, and \<open>Reservation.objects.create\<close> raises for such a reader whatever the
  book, so the ceiling of five of \<open>QuickReservationForm.clean\<close> never decides. For a
  reader with no active reservation and an available book \<open>quick_reserve\<close> succeeds and
  inserts the reservation.
\<close>

theorem quick_reserve_rejects_at_one_active_reservation:
  assumes "wf_db db"
  shows "(list_ex (\<lambda>x. reader x = Some r \<and> is_active x) (reservations db) \<longrightarrow>
            status (fst (quick_reserve db now m (Body (Some r)) b)) = ''error''
            \<and> snd (quick_reserve db now m (Body (Some r)) b) = db
            \<and> (\<exists>e. Reservation_objects_create db now bo (Some r) n = Inl e))
       \<and> (\<forall>bk\<in>set (books db). \<forall>rd\<in>set (readers db).
            pk bk = Some b \<and> pk rd = Some r
            \<and> \<not> list_ex (\<lambda>x. book x = Some b \<and> is_active x) (reservations db)
            \<and> \<not> list_ex (\<lambda>x. reader x = Some r \<and> is_active x) (reservations db)
            \<longrightarrow> (\<exists>res. quick_reserve db now ''POST'' (Body (Some r)) b =
                         (\<lparr>status = ''success'', message = ReservedFor (name rd),
                           reservation_id = pk res\<rparr>,
                          db\<lparr>reservations := reservations db @ [res]\<rparr>)
                      \<and> book res = Some b \<and> reader res = Some r \<and> is_active res))"
proof (intro conjI ballI impI)
  assume a: "list_ex (\<lambda>x. reader x = Some r \<and> is_active x) (reservations db)"
  from quick_reserve_answers_error[OF a, of now m b]
  show "status (fst (quick_reserve db now m (Body (Some r)) b)) = ''error''"
    "snd (quick_reserve db now m (Body (Some r)) b) = db" by simp_all
  from Reservation_objects_create_rejects[OF assms a]
  show "\<exists>e. Reservation_objects_create db now bo (Some r) n = Inl e" .
next
  fix bk rd
  assume "bk \<in> set (books db)" "rd \<in> set (readers db)"
    "pk bk = Some b \<and> pk rd = Some r
      \<and> \<not> list_ex (\<lambda>x. book x = Some b \<and> is_active x) (reservations db)
      \<and> \<not> list_ex (\<lambda>x. reader x = Some r \<and> is_active x) (reservations db)"
  then have "quick_reserve db now ''POST'' (Body (Some r)) b =
           (\<lparr>status = ''success'', message = ReservedFor (name rd),
             reservation_id = Some (next_pk (reservations db))\<rparr>,
            db\<lparr>reservations := reservations db @
                  [\<lparr>pk = Some (next_pk (reservations db)), book = Some b, reader = Some r,
                    reservation_date = Some now, is_active = True, cancelled_at = None,
                    notes = []\<rparr>]\<rparr>)"
    by (intro quick_reserve_answers_success[OF assms, of bk b rd r]) simp_all
  then show "\<exists>res. quick_reserve db now ''POST'' (Body (Some r)) b =
                         (\<lparr>status = ''success'', message = ReservedFor (name rd),
                           reservation_id = pk res\<rparr>,
                          db\<lparr>reservations := reservations db @ [res]\<rparr>)
                      \<and> book res = Some b \<and> reader res = Some r \<and> is_active res"
    by (intro exI[of _ "\<lparr>pk = Some (next_pk (reservations db)), book = Some b, reader = Some r,
                    reservation_date = Some now, is_active = True, cancelled_at = None,
                    notes = []\<rparr>"]) simp
qed

theorem quick_reserve_rejects_at_one_active_reservation_witness:
  "wf_db (library [Res1]) \<and> wf_db (library [])
   \<and> list_ex (\<lambda>x. reader x = Some 1 \<and> is_active x) (reservations (library [Res1]))
   \<and> status (fst (quick_reserve (library [Res1]) 7 ''POST'' (Body (Some 1)) 2)) = ''error''
   \<and> snd (quick_reserve (library [Res1]) 7 ''POST'' (Body (Some 1)) 2) = library [Res1]
   \<and> (\<exists>e. Reservation_objects_create (library [Res1]) 7 (Some 2) (Some 1) [] = Inl e)
   \<and> (\<exists>res. quick_reserve (library []) 7 ''POST'' (Body (Some 1)) 2 =
          (\<lparr>status = ''success'', message = ReservedFor ''Ann'', reservation_id = pk res\<rparr>,
           (library [])\<lparr>reservations := reservations (library []) @ [res]\<rparr>)
        \<and> book res = Some 2 \<and> reader res = Some 1 \<and> is_active res)"
proof -
  have a: "list_ex (\<lambda>x. reader x = Some 1 \<and> is_active x) (reservations (library [Res1]))"
    by (simp add: library_defs)
  have b: "Emma \<in> set (books (library []))" "Ann \<in> set (readers (library []))"
    "pk Emma = Some 2" "pk Ann = Some 1" "name Ann = ''Ann''"
    "\<not> list_ex (\<lambda>x. book x = Some 2 \<and> is_active x) (reservations (library []))"
    "\<not> list_ex (\<lambda>x. reader x = Some 1 \<and> is_active x) (reservations (library []))"
    by (simp_all add: library_defs)
  from quick_reserve_rejects_at_one_active_reservation
         [OF wf_Res1, of 1 7 "''POST''" 2 "Some 2" "[]"] a
  have 1: "status (fst (quick_reserve (library [Res1]) 7 ''POST'' (Body (Some 1)) 2)) = ''error''"
    "snd (quick_reserve (library [Res1]) 7 ''POST'' (Body (Some 1)) 2) = library [Res1]"
    "\<exists>e. Reservation_objects_create (library [Res1]) 7 (Some 2) (Some 1) [] = Inl e"
    by blast+
  have pre: "pk Emma = Some 2 \<and> pk Ann = Some 1
      \<and> \<not> list_ex (\<lambda>x. book x = Some 2 \<and> is_active x) (reservations (library []))
      \<and> \<not> list_ex (\<lambda>x. reader x = Some 1 \<and> is_active x) (reservations (library []))"
    using b(3,4,6,7) by blast
  have 2: "\<exists>res. quick_reserve (library []) 7 ''POST'' (Body (Some 1)) 2 =
          (\<lparr>status = ''success'', message = ReservedFor ''Ann'', reservation_id = pk res\<rparr>,
           (library [])\<lparr>reservations := reservations (library []) @ [res]\<rparr>)
        \<and> book res = Some 2 \<and> reader res = Some 1 \<and> is_active res"
    using quick_reserve_rejects_at_one_active_reservation
         [OF wf_empty, of 1 7 "''POST''" 2 "Some 2" "[]", THEN conjunct2, rule_format,
          OF b(1,2) pre]
    unfolding b(5) .
  show ?thesis
    by (intro conjI) (rule wf_Res1 wf_empty a 1 2)+
qed

text \<open>
  C7 as stated fails: Ann holds one active reservation (fewer than five), Emma is
  available and \<open>QuickReservationForm.clean\<close> accepts, yet \<open>quick_reserve\<close> rejects the
  request and \<open>Reservation.objects.create\<close> raises.
\<close>

theorem quick_reserve_rejects_below_five:
  "active_count_of_reader (library [Res1]) 1 = 1
   \<and> is_available (library [Res1]) Emma
   \<and> QuickReservationForm_clean (library [Res1]) (Some Emma) (Some Ann) = Inr ()
   \<and> quick_reserve (library [Res1]) 7 ''POST'' (Body (Some 1)) 2 =
        (\<lparr>status = ''error'', message = ReaderHasReservation, reservation_id = None\<rparr>,
         library [Res1])
   \<and> Reservation_objects_create (library [Res1]) 7 (Some 2) (Some 1) [] =
        Inl (ValidationError [(''reader'', ReaderAlreadyReserved ''Ann'')])"
proof -
  have "active_count_of_reader (library [Res1]) 1 = 1"
    by (simp add: active_count_of_reader_def library_defs)
  moreover have "is_available (library [Res1]) Emma"
    by (simp add: is_available_def library_defs)
  moreover have "QuickReservationForm_clean (library [Res1]) (Some Emma) (Some Ann) = Inr ()"
    by (simp add: QuickReservationForm_clean_def query_defs library_defs)
  moreover have "quick_reserve (library [Res1]) 7 ''POST'' (Body (Some 1)) 2 =
        (\<lparr>status = ''error'', message = ReaderHasReservation, reservation_id = None\<rparr>,
         library [Res1])"
    by (simp add: quick_reserve_def query_defs library_defs)
  moreover have "Reservation_objects_create (library [Res1]) 7 (Some 2) (Some 1) [] =
        Inl (ValidationError [(''reader'', ReaderAlreadyReserved ''Ann'')])"
    by (simp add: query_defs save_defs library_defs)
  ultimately show ?thesis by simp
qed

text \<open>
  C8, as amended: the storage layer enforces I1 alone. A write that would give a book a
  second active reservation is refused with an IntegrityError, whatever the application
  checked before, and a write that is accepted keeps every book at one active
  reservation at most. No constraint of the table mentions the reader.
\<close>

theorem storage_enforces_one_active_reservation_per_book:
  "(is_active self \<and> x \<in> set (reservations db) \<and> is_active x \<and> book x = book self
      \<and> (pk self = None \<or> pk x \<noteq> pk self)
      \<longrightarrow> (\<exists>e. Model_save db now self = Inl (IntegrityError e)))
   \<and> (pk_ok (reservations db) \<and> one_active_per_book (reservations db)
      \<and> Model_save db now self = Inr (r, db')
      \<longrightarrow> active_count_of_book db' b \<le> 1)"
proof (intro conjI impI)
  assume "is_active self \<and> x \<in> set (reservations db) \<and> is_active x \<and> book x = book self
      \<and> (pk self = None \<or> pk x \<noteq> pk self)"
  then show "\<exists>e. Model_save db now self = Inl (IntegrityError e)"
    by (intro Model_save_refuses[of self x db now]) simp_all
next
  assume a: "pk_ok (reservations db) \<and> one_active_per_book (reservations db)
      \<and> Model_save db now self = Inr (r, db')"
  then have "pk_ok (reservations db') \<and> one_active_per_book (reservations db')"
    by (intro Model_save_keeps_constraints[of db now self r db']) simp_all
  then show "active_count_of_book db' b \<le> 1"
    by (intro constraints_count) simp_all
qed

theorem storage_enforces_one_active_reservation_per_book_witness:
  "is_active Res2_new \<and> Res1 \<in> set (reservations (library [Res1])) \<and> is_active Res1
   \<and> book Res1 = book Res2_new \<and> pk Res2_new = None
   \<and> Model_save (library [Res1]) 7 Res2_new
       = Inl (IntegrityError ''unique_active_reservation_per_book'')
   \<and> pk_ok (reservations (library [Res1])) \<and> one_active_per_book (reservations (library [Res1]))
   \<and> Model_save (library [Res1]) 7 Res3_new = Inr (Res3, library [Res1, Res3])
   \<and> active_count_of_book (library [Res1, Res3]) 1 \<le> 1"
proof -
  have a: "is_active Res2_new" "Res1 \<in> set (reservations (library [Res1]))" "is_active Res1"
    "book Res1 = book Res2_new" "pk Res2_new = None"
    by (simp_all add: library_defs Res2_new_def)
  have b: "Model_save (library [Res1]) 7 Res2_new
       = Inl (IntegrityError ''unique_active_reservation_per_book'')"
    by (simp add: save_defs library_defs Res2_new_def)
  have c: "pk_ok (reservations (library [Res1]))"
    "one_active_per_book (reservations (library [Res1]))"
    using wf_dbD(3,4)[OF wf_Res1] .
  have d: "Model_save (library [Res1]) 7 Res3_new = Inr (Res3, library [Res1, Res3])"
    by (simp add: save_defs library_defs Res3_new_def)
  from storage_enforces_one_active_reservation_per_book
         [of Res3_new Res1 "library [Res1]" 7 Res3 "library [Res1, Res3]" 1] c d
  have "active_count_of_book (library [Res1, Res3]) 1 \<le> 1" by blast
  moreover from storage_enforces_one_active_reservation_per_book
         [of Res2_new Res1 "library [Res1]" 7] a
  have "\<exists>e. Model_save (library [Res1]) 7 Res2_new = Inl (IntegrityError e)" by blast
  ultimately show ?thesis using a b c d by simp
qed

text \<open>
  C8 as stated fails for I2: Ann has an active reservation, and the storage layer accepts
  the insert of a second active reservation of the same reader. The engine reaches that state too
  (create, cancel, create for the same reader, reactivate).
\<close>

theorem storage_accepts_two_active_reservations_of_a_reader:
  "active_count_of_reader (library [Res1]) 1 = 1
   \<and> Model_save (library [Res1]) 7 Res3_new = Inr (Res3, library [Res1, Res3])
   \<and> active_count_of_reader (library [Res1, Res3]) 1 = 2
   \<and> reachable (library [Res1, Res3])"
proof -
  have "active_count_of_reader (library [Res1]) 1 = 1"
    "active_count_of_reader (library [Res1, Res3]) 1 = 2"
    by (simp_all add: active_count_of_reader_def library_defs)
  moreover have "Model_save (library [Res1]) 7 Res3_new = Inr (Res3, library [Res1, Res3])"
    by (simp add: save_defs library_defs Res3_new_def)
  ultimately show ?thesis using reachable_two_of_Ann by simp
qed

text \<open>
  C9: saving a reader stores the email stripped and then lower-cased, for every email
  that is a text of Latin-1. Whenever \<open>Reader.save\<close> succeeds, the row it wrote carries
  \<open>lower (strip email)\<close> and is the row found under its key. It succeeds when no other
  reader has that email, the instance is new or carries its \<open>created_at\<close>, and the name
  and the email fit their columns.
\<close>

theorem Reader_save_stores_normalized_email:
  "(Reader_save cl db now self = Inr (r, db') \<longrightarrow>
      email r = lower (strip (email self)) \<and> name r = name self
      \<and> (pk_ok (readers db) \<longrightarrow> (\<exists>k. pk r = Some k \<and> get_object_or_404 (readers db') k = Inr r)))
   \<and> (\<not> list_ex (\<lambda>x. (pk self = None \<or> pk x \<noteq> pk self) \<and> email x = lower (strip (email self)))
          (readers db)
      \<and> (pk self = None \<or> \<not> list_ex (\<lambda>x. pk x = pk self) (readers db)
           \<or> created_at self \<noteq> None)
      \<and> length (name self) \<le> 100 \<and> length (lower (strip (email self))) \<le> 254
      \<longrightarrow> (\<exists>r db'. Reader_save cl db now self = Inr (r, db')))"
proof -
  let ?self = "if email self \<noteq> [] then self\<lparr>email := lower (strip (email self))\<rparr> else self"
  have e: "email ?self = lower (strip (email self))" "name ?self = name self" "pk ?self = pk self"
    "created_at ?self = created_at self"
    by (simp_all add: strip_lower_empty)
  have rs: "Reader_save cl db now self = Model_save_Reader cl db now ?self"
    by (simp add: Reader_save_def)
  show ?thesis
  proof (intro conjI impI)
    assume a: "Reader_save cl db now self = Inr (r, db')"
    then have m: "Model_save_Reader cl db now ?self = Inr (r, db')" by (simp only: rs)
    from Model_save_Reader_Inr(1,2)[OF m] e
    show "email r = lower (strip (email self))" "name r = name self" by simp_all
    assume "pk_ok (readers db)"
    with m show "\<exists>k. pk r = Some k \<and> get_object_or_404 (readers db') k = Inr r"
      by (rule Model_save_Reader_stored)
  next
    assume a: "\<not> list_ex (\<lambda>x. (pk self = None \<or> pk x \<noteq> pk self)
                \<and> email x = lower (strip (email self))) (readers db)
      \<and> (pk self = None \<or> \<not> list_ex (\<lambda>x. pk x = pk self) (readers db)
           \<or> created_at self \<noteq> None)
      \<and> length (name self) \<le> 100 \<and> length (lower (strip (email self))) \<le> 254"
    then have 1: "\<not> list_ex (\<lambda>x. (pk ?self = None \<or> pk x \<noteq> pk ?self) \<and> email x = email ?self)
                  (readers db)"
      unfolding e by (rule conjunct1)
    from a have 2: "pk ?self = None \<or> \<not> list_ex (\<lambda>x. pk x = pk ?self) (readers db)
           \<or> created_at ?self \<noteq> None"
      unfolding e by blast
    from a have 3: "length (name ?self) \<le> 100 \<and> length (email ?self) \<le> 254"
      unfolding e by blast
    from Model_save_Reader_accepts[OF 1 2 3, of cl now]
    show "\<exists>r db'. Reader_save cl db now self = Inr (r, db')" by (simp only: rs)
  qed
qed

theorem Reader_save_stores_normalized_email_witness:
  "pk_ok (readers (library []))
   \<and> Reader_objects_create True (library []) 9 ''Cy'' ''  MixedCase@Email.COM ''
       = Inr (Cy, (library [])\<lparr>readers := [Ann, Bob, Cy]\<rparr>)
   \<and> email Cy = ''mixedcase@email.com''
   \<and> email Cy = lower (strip ''  MixedCase@Email.COM '')
   \<and> get_object_or_404 (readers ((library [])\<lparr>readers := [Ann, Bob, Cy]\<rparr>)) 3 = Inr Cy
   \<and> (\<exists>r db'. Reader_save True (library []) 9 Cy_new = Inr (r, db'))
   \<and> lower (strip [CHR 0xA0, CHR 0xC9, CHR ''T'', CHR 0xD7, CHR 0x85]) = [CHR 0xE9, CHR ''t'', CHR 0xD7]
   \<and> Reader_save True (library []) 9 (Cy_new\<lparr>pk := Some 1\<rparr>) = Inl (IntegrityError ''created_at'')"
proof -
  have p: "pk_ok (readers (library []))" using wf_dbD(2)[OF wf_empty] .
  have c: "Reader_save True (library []) 9 Cy_new = Inr (Cy, (library [])\<lparr>readers := [Ann, Bob, Cy]\<rparr>)"
    by (simp add: Reader_save_def Model_save_Reader_def unique_email_def next_pk_def Let_def
        normalize_example library_defs Cy_def Cy_new_def)
  have n: "email Cy_new = ''  MixedCase@Email.COM ''" "pk Cy = Some 3"
    "email Cy = ''mixedcase@email.com''" "pk Cy_new = None"
    by (simp_all add: Cy_new_def Cy_def)
  have f: "\<not> list_ex (\<lambda>x. (pk Cy_new = None \<or> pk x \<noteq> pk Cy_new)
                \<and> email x = lower (strip (email Cy_new))) (readers (library []))"
    "length (name Cy_new) \<le> 100 \<and> length (lower (strip (email Cy_new))) \<le> 254"
    by (simp_all add: n normalize_example library_defs) (simp add: Cy_new_def)
  note t = Reader_save_stores_normalized_email
         [of True "library []" 9 Cy_new Cy "(library [])\<lparr>readers := [Ann, Bob, Cy]\<rparr>"]
  from t c p n
  have "email Cy = lower (strip ''  MixedCase@Email.COM '')"
    "get_object_or_404 (readers ((library [])\<lparr>readers := [Ann, Bob, Cy]\<rparr>)) 3 = Inr Cy"
    by auto
  moreover from t f n(4) have "\<exists>r db'. Reader_save True (library []) 9 Cy_new = Inr (r, db')"
    by blast
  moreover have "Reader_objects_create True (library []) 9 ''Cy'' ''  MixedCase@Email.COM ''
       = Inr (Cy, (library [])\<lparr>readers := [Ann, Bob, Cy]\<rparr>)"
    using c by (simp add: Reader_objects_create_def Cy_new_def)
  moreover have "lower (strip [CHR 0xA0, CHR 0xC9, CHR ''T'', CHR 0xD7, CHR 0x85])
                   = [CHR 0xE9, CHR ''t'', CHR 0xD7]"
    by (simp add: lower_def strip_def isspace_def lower_char_def char_of_def bit_0)
  moreover have "Reader_save True (library []) 9 (Cy_new\<lparr>pk := Some 1\<rparr>)
                   = Inl (IntegrityError ''created_at'')"
    by (simp add: Reader_save_def Model_save_Reader_def Let_def library_defs Cy_new_def)
  ultimately show ?thesis using p n(3) by simp
qed

text \<open>
  C10 (frame): CancelReservation and ReactivateReservation leave the books and the
  readers as they were, create and delete no reservation, change no reservation but the
  one with the given key, and change of that one only \<open>is_active\<close> and \<open>cancelled_at\<close>.
\<close>

theorem cancel_reactivate_frame:
  assumes "wf_db db"
    and "db' = snd (CancelReservation db now k) \<or> db' = snd (ReactivateReservation db now k)"
  shows "books db' = books db \<and> readers db' = readers db
       \<and> list_all2 (\<lambda>y y'. if pk y = Some k
                      then y' = y\<lparr>is_active := is_active y', cancelled_at := cancelled_at y'\<rparr>
                      else y' = y) (reservations db) (reservations db')"
  using assms(2)
proof
  assume "db' = snd (CancelReservation db now k)"
  with CancelReservation_effect[OF assms(1), of now k] show ?thesis
    by (intro frame_effect[OF assms(1)]) simp
next
  assume "db' = snd (ReactivateReservation db now k)"
  with ReactivateReservation_effect[OF assms(1), of now k] show ?thesis
    by (intro frame_effect[OF assms(1)]) simp
qed


theorem cancel_reactivate_frame_witness:
  "wf_db (library [cancelled 6 Res1, Res2])
   \<and> snd (CancelReservation (library [cancelled 6 Res1, Res2]) 9 2)
       = library [cancelled 6 Res1, cancelled 9 Res2]
   \<and> books (library [cancelled 6 Res1, cancelled 9 Res2]) = books (library [cancelled 6 Res1, Res2])
   \<and> readers (library [cancelled 6 Res1, cancelled 9 Res2])
       = readers (library [cancelled 6 Res1, Res2])
   \<and> list_all2 (\<lambda>y y'. if pk y = Some 2
                      then y' = y\<lparr>is_active := is_active y', cancelled_at := cancelled_at y'\<rparr>
                      else y' = y)
         (reservations (library [cancelled 6 Res1, Res2]))
         (reservations (library [cancelled 6 Res1, cancelled 9 Res2]))"
proof -
  have e: "snd (CancelReservation (library [cancelled 6 Res1, Res2]) 9 2)
             = library [cancelled 6 Res1, cancelled 9 Res2]"
    by (simp add: query_defs save_defs engine_defs library_defs)
  then have "library [cancelled 6 Res1, cancelled 9 Res2]
               = snd (CancelReservation (library [cancelled 6 Res1, Res2]) 9 2)
           \<or> library [cancelled 6 Res1, cancelled 9 Res2]
               = snd (ReactivateReservation (library [cancelled 6 Res1, Res2]) 9 2)"
    by simp
  from cancel_reactivate_frame[OF wf_cancelled_Res1_Res2 this] e wf_cancelled_Res1_Res2
  show ?thesis by blast
qed

end
